(* ===== verification/Prelude.thy ===== *)
theory Prelude
  imports Main "HOL-Library.Word"
begin

text \<open>
  Shared vocabulary of the development.  The three scripts of the repository are
  Python programs that move bytes between files: this theory names the types the
  models share (bytes, 32-bit words, paths), the Python exceptions the scripts can
  raise, the exit status of a script run, the conversion of a Python 2 \<open>str\<close>
  (a byte string) to a list of bytes, and the generic lemmas on words, integers and
  lists the component theories use.  The rule collections \<open>crc_eval\<close> and
  \<open>py_eval\<close> gather the equations that evaluate the models on concrete inputs.
\<close>

unbundle bit_operations_syntax

type_synonym byte = "8 word"
type_synonym u32 = "32 word"
type_synonym bytes = "byte list"
type_synonym path = string

named_theorems crc_eval "equations evaluating the CRC-32 model on concrete bytes"
named_theorems py_eval "equations evaluating the Python library model on concrete values"

text \<open>
  The exceptions the scripts can raise.  Each one ends the script with a traceback
  and exit status 1 unless a \<open>try\<close> of the script catches it.  \<open>IOError p\<close> stands
  for the errors of the \<open>OSError\<close> family no script catches (Python 2's \<open>IOError\<close>,
  Python 3's \<open>PermissionError\<close> and \<open>IsADirectoryError\<close>); the two subclasses
  \<open>cpcfg.py\<close> catches, \<open>FileExistsError\<close> and \<open>FileNotFoundError\<close>, are their own
  constructors, as are \<open>UnicodeDecodeError\<close> and \<open>shutil.SameFileError\<close>.
\<close>

datatype py_exc =
    IndexError
  | IOError path
  | StructError
  | FileExistsError path
  | FileNotFoundError path
  | UnicodeDecodeError
  | SameFileError path

datatype status = Exited nat | Uncaught py_exc

fun exit_code :: "status \<Rightarrow> nat" where
  "exit_code (Exited n) = n"
| "exit_code (Uncaught e) = 1"

text \<open>
  Propagation of an exception through the statements that follow it: the value
  of a statement that may raise, then the rest of the code run on its result.
\<close>

definition exc_bind :: "py_exc + 'a \<Rightarrow> ('a \<Rightarrow> py_exc + 'b) \<Rightarrow> py_exc + 'b" where
  "exc_bind r f = (case r of Inl e \<Rightarrow> Inl e | Inr x \<Rightarrow> f x)"

text \<open>
  A Python 2 \<open>str\<close> is a byte string, and an Isabelle \<^typ>\<open>char\<close> is one byte; a
  command-line argument is used by the scripts as the bytes it is made of.
\<close>

definition byte_of_char :: "char \<Rightarrow> byte" where
  "byte_of_char c = of_nat (of_char c)"

definition bytes_of :: "string \<Rightarrow> bytes" where
  "bytes_of s = map byte_of_char s"

declare byte_of_char_def [py_eval] bytes_of_def [py_eval]

lemma length_bytes_of [simp]: "length (bytes_of s) = length s"
  by (simp add: bytes_of_def)

lemma bytes_of_append [simp]: "bytes_of (s @ t) = bytes_of s @ bytes_of t"
  by (simp add: bytes_of_def)

lemma bytes_of_Nil [simp]: "bytes_of [] = []"
  by (simp add: bytes_of_def)

lemma byte_of_char_inj: "inj byte_of_char"
proof (rule injI)
  fix a b assume "byte_of_char a = byte_of_char b"
  then have "unat (of_nat (of_char a) :: byte) = unat (of_nat (of_char b) :: byte)"
    by (simp add: byte_of_char_def)
  then have "of_char a = (of_char b :: nat)"
    using nat_of_char_less_256 [of a] nat_of_char_less_256 [of b] by (simp add: unat_of_nat)
  then show "a = b" by simp
qed

lemma bytes_of_inj: "bytes_of s = bytes_of t \<longleftrightarrow> s = t"
  using byte_of_char_inj by (simp add: bytes_of_def inj_map_eq_map)

subsection \<open>Words and integers\<close>

lemma word_bit_bound: "bit (w :: 'a::len word) n \<Longrightarrow> n < LENGTH('a)"
  by (rule bit_imp_le_length)

lemma word_xor_right_cancel [simp]: "(a XOR c = b XOR c) = (a = (b :: 'a::len word))"
  by (metis xor.assoc xor_self_eq xor.right_neutral)

lemma word_xor_left_cancel [simp]: "(c XOR a = c XOR b) = (a = (b :: 'a::len word))"
  by (metis xor.commute word_xor_right_cancel)

lemma ucast_byte_u32_inj: "(ucast (x :: byte) :: u32) = ucast y \<longleftrightarrow> x = y"
proof
  assume h: "(ucast x :: u32) = ucast y"
  show "x = y"
  proof (rule bit_eqI)
    fix n
    have "bit (ucast x :: u32) n = bit (ucast y :: u32) n"
      using h by simp
    then show "bit x n = bit y n"
      by (auto simp: bit_simps dest: word_bit_bound)
  qed
qed simp

lemma int_and_mask32: "(x :: int) AND 0xffffffff = take_bit 32 x"
  by (simp add: take_bit_eq_mask mask_eq_exp_minus_1)

lemma sint_and_mask32: "sint (w :: u32) AND 0xffffffff = uint w"
  by (simp add: int_and_mask32 uint_sint)

lemma uint_and_mask32: "uint (w :: u32) AND 0xffffffff = uint w"
  by (simp add: int_and_mask32 take_bit_word_eq_self flip: unsigned_take_bit_eq)

lemma word_of_int_uint32 [simp]: "(word_of_int (uint (w :: u32)) :: u32) = w"
  by simp

lemma exc_bind_Inl [simp]: "exc_bind (Inl e) f = Inl e"
  by (simp add: exc_bind_def)

lemma exc_bind_Inr [simp]: "exc_bind (Inr x) f = f x"
  by (simp add: exc_bind_def)

lemma exc_bind_eq_Inr: "exc_bind r f = Inr y \<longleftrightarrow> (\<exists>x. r = Inr x \<and> f x = Inr y)"
  by (cases r) simp_all

end
