(* ===== verification/Struct.thy ===== *)
theory Struct
  imports Prelude
begin

text \<open>
  Python's \<open>struct.pack('<I', v)\<close> and \<open>struct.unpack('<I', b)\<close>, as the packager
  uses them for the two header fields.  A Python integer is unbounded: the packing
  raises \<open>struct.error\<close> unless \<open>0 \<le> v \<le> 0xffffffff\<close>, and otherwise emits the
  four bytes of \<open>v\<close>, least significant first.  \<open>le_bytes\<close> and \<open>le_value\<close> are the
  little-endian encoding and decoding of any width; the lemmas prove them inverse
  on their domains and the packing exact on its range.
\<close>

fun le_bytes :: "nat \<Rightarrow> int \<Rightarrow> bytes" where
  "le_bytes 0 v = []"
| "le_bytes (Suc n) v = word_of_int v # le_bytes n (v div 256)"

fun le_value :: "bytes \<Rightarrow> int" where
  "le_value [] = 0"
| "le_value (b # bs) = uint b + 256 * le_value bs"

definition struct_pack_I :: "int \<Rightarrow> py_exc + bytes" where
  "struct_pack_I v = (if 0 \<le> v \<and> v \<le> 0xffffffff then Inr (le_bytes 4 v) else Inl StructError)"

definition struct_unpack_I :: "bytes \<Rightarrow> py_exc + int" where
  "struct_unpack_I bs = (if length bs = 4 then Inr (le_value bs) else Inl StructError)"

declare struct_pack_I_def [py_eval] struct_unpack_I_def [py_eval]

subsection \<open>Encoding and decoding\<close>

lemma length_le_bytes [simp]: "length (le_bytes n v) = n"
  by (induction n arbitrary: v) simp_all

lemma uint_byte_of_int: "uint (word_of_int v :: byte) = v mod 256"
  by (simp add: uint_word_of_int_eq take_bit_eq_mod)

lemma le_value_le_bytes: "le_value (le_bytes n v) = v mod 256 ^ n"
proof (induction n arbitrary: v)
  case 0
  then show ?case by simp
next
  case (Suc n)
  have "le_value (le_bytes (Suc n) v) = v mod 256 + 256 * ((v div 256) mod 256 ^ n)"
    by (simp add: Suc.IH uint_byte_of_int)
  also have "\<dots> = v mod 256 ^ Suc n"
    using mod_mult2_eq' [of v 256 "256 ^ n"] by simp
  finally show ?case .
qed

lemma le_value_bounds: "0 \<le> le_value bs \<and> le_value bs < 256 ^ length bs"
proof (induction bs)
  case Nil
  then show ?case by simp
next
  case (Cons b bs)
  have "uint b < 256"
    using uint_lt2p [of b] by simp
  with Cons.IH show ?case by simp
qed

lemma le_bytes_le_value: "le_bytes (length bs) (le_value bs) = bs"
proof (induction bs)
  case Nil
  then show ?case by simp
next
  case (Cons b bs)
  have lo: "0 \<le> uint b" "uint b < 256"
    using uint_lt2p [of b] by simp_all
  then have "(uint b + 256 * le_value bs) div 256 = le_value bs"
    by simp
  moreover have "(word_of_int (uint b + 256 * le_value bs) :: byte) = b"
    by (rule word_uint_eqI) (simp only: uint_byte_of_int, simp add: lo)
  ultimately show ?case
    using Cons.IH by simp
qed

lemma le_bytes_mod: "le_bytes n (v mod 256 ^ n) = le_bytes n v"
proof -
  have "le_bytes n (v mod 256 ^ n) = le_bytes (length (le_bytes n v)) (le_value (le_bytes n v))"
    by (simp add: le_value_le_bytes)
  then show ?thesis
    by (simp only: le_bytes_le_value)
qed

subsection \<open>The \<open>'<I'\<close> format\<close>

lemma le_bytes_4 [py_eval]:
  "le_bytes 4 v = [word_of_int v, word_of_int (v div 256), word_of_int (v div 256 div 256),
                   word_of_int (v div 256 div 256 div 256)]"
  by (simp add: numeral_eq_Suc)

lemma struct_pack_I_ok:
  "0 \<le> v \<Longrightarrow> v \<le> 0xffffffff \<Longrightarrow> struct_pack_I v = Inr (le_bytes 4 v)"
  by (simp add: struct_pack_I_def)

lemma struct_pack_I_error:
  "struct_pack_I v = Inl e \<longleftrightarrow> e = StructError \<and> (v < 0 \<or> 0xffffffff < v)"
  by (auto simp: struct_pack_I_def)

lemma struct_pack_I_uint: "struct_pack_I (uint (w :: u32)) = Inr (le_bytes 4 (uint w))"
  using uint_lt2p [of w] by (simp add: struct_pack_I_def)

lemma le_value_le_bytes4:
  "0 \<le> v \<Longrightarrow> v \<le> 0xffffffff \<Longrightarrow> le_value (le_bytes 4 v) = v"
  by (simp add: le_value_le_bytes)

lemma le_bytes4_uint_inj: "le_bytes 4 (uint (a :: u32)) = le_bytes 4 (uint b) \<longleftrightarrow> a = b"
proof
  assume "le_bytes 4 (uint a) = le_bytes 4 (uint b)"
  then have "le_value (le_bytes 4 (uint a)) = le_value (le_bytes 4 (uint b))" by simp
  then show "a = b"
    using uint_lt2p [of a] uint_lt2p [of b] by (simp add: le_value_le_bytes4 word_uint_eq_iff)
qed simp

text \<open>
  C15.  Round trip of the header fields: \<open>struct.pack('<I', v)\<close> succeeds with the
  bytes \<open>b\<close> exactly when \<open>struct.unpack('<I', b)\<close> succeeds with the value \<open>v\<close>.
\<close>

theorem struct_pack_unpack_I: "struct_pack_I v = Inr b \<longleftrightarrow> struct_unpack_I b = Inr v"
proof
  assume "struct_pack_I v = Inr b"
  then show "struct_unpack_I b = Inr v"
    by (auto simp: struct_pack_I_def struct_unpack_I_def le_value_le_bytes4 split: if_splits)
next
  assume u: "struct_unpack_I b = Inr v"
  then have "length b = 4" and v: "v = le_value b"
    by (auto simp: struct_unpack_I_def split: if_splits)
  moreover have "0 \<le> v \<and> v \<le> 0xffffffff"
    using le_value_bounds [of b] v \<open>length b = 4\<close> by simp
  ultimately show "struct_pack_I v = Inr b"
    using le_bytes_le_value [of b] by (simp add: struct_pack_I_def)
qed

end
