(* ===== verification/PyIO.thy ===== *)
theory PyIO
  imports Prelude
begin

text \<open>
  The part of Python's I/O library the scripts use, as the scripts see it.
  \<^item> \<open>py_readlines\<close>: \<open>file.readlines()\<close> on a file opened in binary mode, which
    splits the content after every newline byte.
  \<^item> \<open>py_basename\<close>, \<open>py_dirname\<close>, \<open>py_join\<close>: \<open>os.path\<close> (posixpath) on strings.
  \<^item> \<open>fs\<close>: the file system, a map from paths to the bytes of regular files, the set
    of directories, and the paths this process may not read or write.
  \<^item> \<open>open_read\<close>, \<open>open_write\<close>, \<open>f_write\<close>, \<open>f_seek\<close>: opening a file for
    reading (its whole content, as \<open>readlines\<close> reads it), opening for writing with
    truncation (modes \<open>wb\<close>, \<open>w\<close>, \<open>w+\<close>), and the write and seek of the file
    object, whose position moves with each write.  Writes are applied to the file
    at once: the scripts never read a file they are writing, so Python's buffering
    is not observable.
  The invariant \<open>fs_wf\<close> (no path is both a file and a directory, every file sits
  in an existing directory) is kept by every operation.
\<close>

subsection \<open>\<open>readlines\<close> in binary mode\<close>

function py_readlines :: "bytes \<Rightarrow> bytes list" where
  "py_readlines bs =
     (if bs = [] then []
      else case dropWhile (\<lambda>b. b \<noteq> 10) bs of
             [] \<Rightarrow> [bs]
           | nl # rest \<Rightarrow> (takeWhile (\<lambda>b. b \<noteq> 10) bs @ [nl]) # py_readlines rest)"
  by pat_completeness auto
termination
proof (relation "measure length")
  fix bs nl rest
  assume "dropWhile (\<lambda>b. b \<noteq> (10 :: byte)) bs = nl # rest"
  then have "length (nl # rest) \<le> length bs"
    by (metis length_dropWhile_le)
  then show "(rest, bs) \<in> measure length" by simp
qed simp

declare py_readlines.simps [simp del]

subsection \<open>\<open>os.path\<close>\<close>

definition py_basename :: "path \<Rightarrow> path" where
  "py_basename p = rev (takeWhile (\<lambda>c. c \<noteq> CHR ''/'') (rev p))"

definition py_dirname :: "path \<Rightarrow> path" where
  "py_dirname p =
     (let head = take (length p - length (py_basename p)) p
      in if head \<noteq> [] \<and> \<not> list_all (\<lambda>c. c = CHR ''/'') head
         then rev (dropWhile (\<lambda>c. c = CHR ''/'') (rev head)) else head)"

definition py_join :: "path \<Rightarrow> path \<Rightarrow> path" where
  "py_join a b =
     (if take 1 b = ''/'' then b
      else if a = [] \<or> last a = CHR ''/'' then a @ b
      else a @ ''/'' @ b)"

declare py_basename_def [py_eval] py_dirname_def [py_eval] py_join_def [py_eval]

subsection \<open>The file system\<close>

record fs =
  files :: "path \<rightharpoonup> bytes"
  dirs :: "path set"
  unreadable :: "path set"
  unwritable :: "path set"

text \<open>A file object opened for writing: its path and its position.\<close>

record wfile =
  wf_path :: path
  wf_pos :: nat

definition file_content :: "fs \<Rightarrow> path \<Rightarrow> bytes" where
  "file_content s p = (case files s p of None \<Rightarrow> [] | Some d \<Rightarrow> d)"

definition parent_ok :: "fs \<Rightarrow> path \<Rightarrow> bool" where
  "parent_ok s p \<longleftrightarrow> py_dirname p = [] \<or> py_dirname p \<in> dirs s"

definition fs_wf :: "fs \<Rightarrow> bool" where
  "fs_wf s \<longleftrightarrow> (\<forall>p \<in> dom (files s). p \<notin> dirs s \<and> parent_ok s p)"

text \<open>\<open>open(p, 'rb').read()\<close>: fails on a missing path, a directory or a file this
  process may not read.\<close>

definition open_read :: "fs \<Rightarrow> path \<Rightarrow> py_exc + bytes" where
  "open_read s p =
     (if p \<in> unreadable s then Inl (IOError p)
      else case files s p of None \<Rightarrow> Inl (IOError p) | Some d \<Rightarrow> Inr d)"

text \<open>\<open>open(p, 'wb')\<close>: creates the file or truncates it; fails on the empty path, a
  directory, a path this process may not write, or a missing parent directory.\<close>

definition can_create :: "fs \<Rightarrow> path \<Rightarrow> bool" where
  "can_create s p \<longleftrightarrow> p \<noteq> [] \<and> p \<notin> dirs s \<and> p \<notin> unwritable s \<and> parent_ok s p"

definition open_write :: "fs \<Rightarrow> path \<Rightarrow> py_exc + fs \<times> wfile" where
  "open_write s p =
     (if can_create s p
      then Inr (s\<lparr>files := (files s)(p \<mapsto> [])\<rparr>, \<lparr>wf_path = p, wf_pos = 0\<rparr>)
      else Inl (IOError p))"

text \<open>Writing at a position past the end fills the gap with zero bytes, as POSIX does.\<close>

definition write_at :: "bytes \<Rightarrow> nat \<Rightarrow> bytes \<Rightarrow> bytes" where
  "write_at buf pos d =
     take pos buf @ replicate (pos - length buf) 0 @ d @ drop (pos + length d) buf"

definition f_write :: "fs \<Rightarrow> wfile \<Rightarrow> bytes \<Rightarrow> fs \<times> wfile" where
  "f_write s f d =
     (s\<lparr>files := (files s)(wf_path f \<mapsto> write_at (file_content s (wf_path f)) (wf_pos f) d)\<rparr>,
      f\<lparr>wf_pos := wf_pos f + length d\<rparr>)"

definition f_seek :: "wfile \<Rightarrow> nat \<Rightarrow> wfile" where
  "f_seek f n = f\<lparr>wf_pos := n\<rparr>"

text \<open>Every line is non-empty and holds a newline byte only as its last byte.\<close>

definition is_line :: "bytes \<Rightarrow> bool" where
  "is_line l \<longleftrightarrow> l \<noteq> [] \<and> 10 \<notin> set (butlast l)"

declare file_content_def [py_eval] parent_ok_def [py_eval] open_read_def [py_eval]
  can_create_def [py_eval] open_write_def [py_eval] write_at_def [py_eval]
  f_write_def [py_eval] f_seek_def [py_eval]

subsection \<open>\<open>readlines\<close>: the lines are the content\<close>

lemma py_readlines_Nil [simp]: "py_readlines [] = []"
  by (simp add: py_readlines.simps)

lemma py_readlines_last:
  "bs \<noteq> [] \<Longrightarrow> dropWhile (\<lambda>b. b \<noteq> 10) bs = [] \<Longrightarrow> py_readlines bs = [bs]"
  by (subst py_readlines.simps) (simp del: dropWhile_eq_Nil_conv)

lemma py_readlines_line:
  "dropWhile (\<lambda>b. b \<noteq> 10) bs = nl # rest \<Longrightarrow>
   py_readlines bs = (takeWhile (\<lambda>b. b \<noteq> 10) bs @ [nl]) # py_readlines rest"
  by (subst py_readlines.simps) (auto simp del: dropWhile_eq_Cons_conv)

lemma py_readlines_append_line:
  "10 \<notin> set l \<Longrightarrow> py_readlines (l @ 10 # rest) = (l @ [10]) # py_readlines rest"
proof -
  assume l: "10 \<notin> set l"
  then have "dropWhile (\<lambda>b. b \<noteq> 10) (l @ 10 # rest) = 10 # rest"
    by (auto simp: dropWhile_append3)
  moreover have "takeWhile (\<lambda>b. b \<noteq> 10) (l @ 10 # rest) = l"
    using l by (subst takeWhile_append2) auto
  ultimately show ?thesis
    using py_readlines_line by simp
qed

lemma concat_py_readlines: "concat (py_readlines bs) = bs"
proof (induction bs rule: py_readlines.induct)
  case (1 bs)
  show ?case
  proof (cases "dropWhile (\<lambda>b. b \<noteq> 10) bs")
    case Nil
    then show ?thesis
      by (cases "bs = []") (simp_all add: py_readlines_last)
  next
    case (Cons nl rest)
    then have "bs \<noteq> []" by auto
    with Cons "1.IH" have "concat (py_readlines rest) = rest" by blast
    moreover have "takeWhile (\<lambda>b. b \<noteq> 10) bs @ nl # rest = bs"
      using Cons takeWhile_dropWhile_id [of "\<lambda>b. b \<noteq> 10" bs] by simp
    ultimately show ?thesis
      using Cons by (simp add: py_readlines_line)
  qed
qed

lemma py_readlines_is_line: "l \<in> set (py_readlines bs) \<Longrightarrow> is_line l"
proof (induction bs rule: py_readlines.induct)
  case (1 bs)
  show ?case
  proof (cases "dropWhile (\<lambda>b. b \<noteq> 10) bs")
    case Nil
    then have "bs \<noteq> [] \<and> 10 \<notin> set bs \<and> l = bs"
      using "1.prems" by (cases "bs = []") (auto simp: py_readlines_last)
    then show ?thesis
      by (auto simp: is_line_def dest: in_set_butlastD)
  next
    case (Cons nl rest)
    then have ne: "bs \<noteq> []" by auto
    from Cons "1.prems"
    have "l = takeWhile (\<lambda>b. b \<noteq> 10) bs @ [nl] \<or> l \<in> set (py_readlines rest)"
      by (simp add: py_readlines_line)
    then show ?thesis
    proof
      assume "l = takeWhile (\<lambda>b. b \<noteq> 10) bs @ [nl]"
      then show ?thesis
        by (auto simp: is_line_def dest: set_takeWhileD)
    next
      assume "l \<in> set (py_readlines rest)"
      with "1.IH" ne Cons show ?thesis by blast
    qed
  qed
qed

lemma py_readlines_nl: "l \<in> set (butlast (py_readlines bs)) \<Longrightarrow> last l = 10"
proof (induction bs rule: py_readlines.induct)
  case (1 bs)
  show ?case
  proof (cases "dropWhile (\<lambda>b. b \<noteq> 10) bs")
    case Nil
    then show ?thesis
      using "1.prems" by (cases "bs = []") (simp_all add: py_readlines_last)
  next
    case (Cons nl rest)
    then have ne: "bs \<noteq> []" and nl: "nl = 10"
      using hd_dropWhile [of "\<lambda>b. b \<noteq> 10" bs] by auto
    from Cons "1.prems"
    have "l = takeWhile (\<lambda>b. b \<noteq> 10) bs @ [nl] \<or> l \<in> set (butlast (py_readlines rest))"
      by (auto simp: py_readlines_line butlast.simps split: if_splits)
    then show ?thesis
      using "1.IH" ne Cons nl by auto
  qed
qed

lemma py_readlines_unique:
  "(\<forall>l\<in>set ls. is_line l) \<Longrightarrow> (\<forall>l\<in>set (butlast ls). last l = 10) \<Longrightarrow>
   py_readlines (concat ls) = ls"
proof (induction ls)
  case Nil
  then show ?case by simp
next
  case (Cons l ls)
  have l: "l \<noteq> []" "10 \<notin> set (butlast l)"
    using Cons.prems(1) by (auto simp: is_line_def)
  show ?case
  proof (cases "last l = 10")
    case True
    then have e: "l = butlast l @ [10]"
      using l(1) by (metis append_butlast_last_id)
    have "py_readlines (butlast l @ 10 # concat ls) = l # py_readlines (concat ls)"
      using py_readlines_append_line [OF l(2)] e by simp
    moreover have "py_readlines (concat ls) = ls"
      using Cons.IH Cons.prems by (cases ls) auto
    ultimately show ?thesis
      using e by (metis append_Cons append_Nil append_assoc concat.simps(2))
  next
    case False
    then have "ls = []"
      using Cons.prems(2) by (cases ls) auto
    moreover have "10 \<notin> set l"
      using l False by (cases l rule: rev_cases) auto
    then have "py_readlines l = [l]"
      using l(1) by (intro py_readlines_last) (auto simp: dropWhile_eq_Nil_conv)
    ultimately show ?thesis
      by simp
  qed
qed

text \<open>
  C14.  \<open>readlines\<close> on the payload (line 12 of the packager) is the one way to cut
  the payload into lines: the lines concatenate to the payload, each is non-empty
  and holds a newline byte only as its last byte, and every line but the last ends
  with a newline.
\<close>

theorem py_readlines_spec:
  "py_readlines bs = ls \<longleftrightarrow>
     concat ls = bs \<and> (\<forall>l\<in>set ls. is_line l) \<and> (\<forall>l\<in>set (butlast ls). last l = 10)"
proof
  assume "py_readlines bs = ls"
  then show "concat ls = bs \<and> (\<forall>l\<in>set ls. is_line l) \<and> (\<forall>l\<in>set (butlast ls). last l = 10)"
    using concat_py_readlines py_readlines_is_line py_readlines_nl by blast
next
  assume "concat ls = bs \<and> (\<forall>l\<in>set ls. is_line l) \<and> (\<forall>l\<in>set (butlast ls). last l = 10)"
  then show "py_readlines bs = ls"
    using py_readlines_unique by blast
qed

theorem py_readlines_spec_witness:
  "py_readlines [0x61, 10, 0x62] = [[0x61, 10], [0x62]]"
  using py_readlines_spec [of "[0x61, 10, 0x62]" "[[0x61, 10], [0x62]]"]
  by (simp add: is_line_def)

subsection \<open>Writing\<close>

lemma write_at_end [simp]: "write_at buf (length buf) d = buf @ d"
  by (simp add: write_at_def)

lemma write_at_inside:
  "pos + length d \<le> length buf \<Longrightarrow>
   write_at buf pos d = take pos buf @ d @ drop (pos + length d) buf"
  by (simp add: write_at_def)

lemma f_write_files:
  "files (fst (f_write s f d)) =
     (files s)(wf_path f \<mapsto> write_at (file_content s (wf_path f)) (wf_pos f) d)"
  by (simp add: f_write_def)

lemma f_write_pos [simp]: "snd (f_write s f d) = f\<lparr>wf_pos := wf_pos f + length d\<rparr>"
  by (simp add: f_write_def)

lemma f_write_frame [simp]:
  "dirs (fst (f_write s f d)) = dirs s"
  "unreadable (fst (f_write s f d)) = unreadable s"
  "unwritable (fst (f_write s f d)) = unwritable s"
  by (simp_all add: f_write_def)

lemma file_content_upd [simp]: "file_content (s\<lparr>files := (files s)(p \<mapsto> d)\<rparr>) p = d"
  by (simp add: file_content_def)

text \<open>Appending at the end of the file: the content grows by the bytes written.\<close>

lemma f_write_append:
  "wf_pos f = length (file_content s (wf_path f)) \<Longrightarrow>
   f_write s f d = (s\<lparr>files := (files s)(wf_path f \<mapsto> file_content s (wf_path f) @ d)\<rparr>,
                    f\<lparr>wf_pos := wf_pos f + length d\<rparr>)"
  by (simp add: f_write_def)

subsection \<open>The file-system invariant\<close>

lemma open_write_Inr:
  "open_write s p = Inr (s', f) \<longleftrightarrow>
     can_create s p \<and> s' = s\<lparr>files := (files s)(p \<mapsto> [])\<rparr> \<and> f = \<lparr>wf_path = p, wf_pos = 0\<rparr>"
  by (auto simp: open_write_def)

lemma open_write_Inl: "open_write s p = Inl e \<longleftrightarrow> \<not> can_create s p \<and> e = IOError p"
  by (auto simp: open_write_def)

lemma open_write_fs_wf:
  assumes "fs_wf s" and "open_write s p = Inr (s', f)"
  shows "fs_wf s'"
  using assms by (auto simp: open_write_Inr fs_wf_def can_create_def parent_ok_def)

lemma f_write_fs_wf:
  assumes "fs_wf s" and "wf_path f \<in> dom (files s)"
  shows "fs_wf (fst (f_write s f d))"
  using assms by (auto simp: fs_wf_def f_write_files parent_ok_def)

lemma f_write_dom [simp]:
  "wf_path f \<in> dom (files s) \<Longrightarrow> dom (files (fst (f_write s f d))) = dom (files s)"
  by (auto simp: f_write_files)


text \<open>Replacing the content of one file: what the other operations see.\<close>

lemma open_read_upd_other:
  "q \<noteq> p \<Longrightarrow> open_read (s\<lparr>files := (files s)(p \<mapsto> d)\<rparr>) q = open_read s q"
  by (simp add: open_read_def)

lemma can_create_upd [simp]:
  "can_create (s\<lparr>files := f\<rparr>) p = can_create s p"
  by (simp add: can_create_def parent_ok_def)

lemma fs_wf_create:
  "fs_wf s \<Longrightarrow> can_create s p \<Longrightarrow> fs_wf (s\<lparr>files := (files s)(p \<mapsto> d)\<rparr>)"
  by (auto simp: fs_wf_def can_create_def parent_ok_def)

end
