(* ===== verification/PyFormat.thy ===== *)
theory PyFormat
  imports Prelude
begin

text \<open>
  Python's rendering of integers as text, as the scripts print them: \<open>str(n)\<close>
  (decimal, a minus sign for negative values) and the \<open>%08x\<close> conversion
  (lower-case hexadecimal, zero-padded after the sign to a width of eight).
  \<open>py_digits b n\<close> is the digit string of \<open>n\<close> in base \<open>b\<close>; \<open>parse_digits\<close>
  reads one back, and the lemmas prove the round trip and the width of the
  \<open>%08x\<close> field for every 32-bit value.
\<close>

definition digit_char :: "nat \<Rightarrow> char" where
  "digit_char d = (if d < 10 then char_of (48 + d) else char_of (87 + d))"

function py_digits :: "nat \<Rightarrow> nat \<Rightarrow> string" where
  "py_digits b n =
     (if b < 2 \<or> n < b then [digit_char n] else py_digits b (n div b) @ [digit_char (n mod b)])"
  by pat_completeness auto
termination
  by (relation "measure (\<lambda>(b, n). n)") auto

declare py_digits.simps [simp del]

definition py_str_int :: "int \<Rightarrow> string" where
  "py_str_int i = (if i < 0 then ''-'' @ py_digits 10 (nat (- i)) else py_digits 10 (nat i))"

definition py_format_08x :: "int \<Rightarrow> string" where
  "py_format_08x i =
     (let sg = (if i < 0 then ''-'' else '''');
          ds = py_digits 16 (nat \<bar>i\<bar>)
      in sg @ replicate (8 - length sg - length ds) (CHR ''0'') @ ds)"

definition char_digit :: "char \<Rightarrow> nat" where
  "char_digit c = (let k = of_char c in if k < 58 then k - 48 else k - 87)"

definition parse_digits :: "nat \<Rightarrow> string \<Rightarrow> nat" where
  "parse_digits b s = foldl (\<lambda>acc c. acc * b + char_digit c) 0 s"

declare digit_char_def [py_eval] py_str_int_def [py_eval] py_format_08x_def [py_eval]

subsection \<open>Digits\<close>

lemma char_digit_digit_char: "d < 16 \<Longrightarrow> char_digit (digit_char d) = d"
  by (simp add: char_digit_def digit_char_def)

lemma parse_digits_snoc: "parse_digits b (s @ [c]) = parse_digits b s * b + char_digit c"
  by (simp add: parse_digits_def)

lemma parse_py_digits: "b \<le> 16 \<Longrightarrow> 2 \<le> b \<Longrightarrow> parse_digits b (py_digits b n) = n"
proof (induction b n rule: py_digits.induct)
  case (1 b n)
  show ?case
  proof (cases "n < b")
    case True
    with "1.prems" show ?thesis
      by (simp add: py_digits.simps [of b n] parse_digits_def char_digit_digit_char)
  next
    case False
    with "1.prems" "1.IH" have "parse_digits b (py_digits b (n div b)) = n div b"
      by simp
    moreover have "n mod b < 16"
      using "1.prems" mod_less_divisor [of b n] by linarith
    ultimately show ?thesis
      using False "1.prems"
      by (simp add: py_digits.simps [of b n] parse_digits_snoc char_digit_digit_char)
  qed
qed

lemma length_py_digits:
  "2 \<le> b \<Longrightarrow> n < b ^ Suc k \<Longrightarrow> length (py_digits b n) \<le> Suc k"
proof (induction b n arbitrary: k rule: py_digits.induct)
  case (1 b n)
  show ?case
  proof (cases "n < b")
    case True
    with "1.prems" show ?thesis by (simp add: py_digits.simps [of b n])
  next
    case False
    then obtain j where k: "k = Suc j"
      using "1.prems" by (cases k) auto
    with "1.prems" have "n div b < b ^ Suc j"
      by (simp add: div_less_iff_less_mult mult.commute)
    with "1.IH" False "1.prems" have "length (py_digits b (n div b)) \<le> Suc j"
      by simp
    with False "1.prems" k show ?thesis
      by (simp add: py_digits.simps [of b n])
  qed
qed

lemma parse_digits_zeros:
  "parse_digits b (replicate k (CHR ''0'') @ ds) = parse_digits b ds"
proof -
  have "foldl (\<lambda>acc c. acc * b + char_digit c) 0 (replicate k (CHR ''0'')) = 0"
    by (induction k) (simp_all add: char_digit_def)
  then show ?thesis by (simp add: parse_digits_def)
qed

subsection \<open>The printed checksum\<close>

text \<open>
  C16.  The \<open>%08x\<close> rendering of a 32-bit checksum (line 27 of the packager) is
  always exactly eight characters, and reading them back as hexadecimal digits
  gives the checksum: the printed line determines the header's value.
\<close>

theorem py_format_08x_roundtrip:
  assumes "0 \<le> c" and "c \<le> 0xffffffff"
  shows "length (py_format_08x c) = 8 \<and> parse_digits 16 (py_format_08x c) = nat c"
proof -
  have "nat c < 16 ^ Suc 7"
    using assms by simp
  then have len: "length (py_digits 16 (nat c)) \<le> 8"
    using length_py_digits [of 16 "nat c" 7] by simp
  have "parse_digits 16 (py_digits 16 (nat c)) = nat c"
    by (rule parse_py_digits) simp_all
  with len assms show ?thesis
    by (simp add: py_format_08x_def Let_def parse_digits_zeros)
qed

theorem py_format_08x_roundtrip_witness:
  "0 \<le> (0x6780fa98 :: int) \<and> (0x6780fa98 :: int) \<le> 0xffffffff
   \<and> parse_digits 16 (py_format_08x 0x6780fa98) = 0x6780fa98"
proof -
  have h: "0 \<le> (0x6780fa98 :: int)" "(0x6780fa98 :: int) \<le> 0xffffffff" by simp_all
  show ?thesis using py_format_08x_roundtrip [OF h] h by simp
qed

end
