(* ===== verification/FirmwareHeader.thy ===== *)
theory FirmwareHeader
  imports Crc32 Struct PyIO PyFormat
begin

text \<open>
  The firmware image packager, \<open>src/create-firmware-header.py\<close> (a Python 2 script:
  line 27 is a \<open>print\<close> statement).  The script is modelled in the order of its
  lines: the argument checks (lines 5--9), reading the payload with \<open>readlines\<close>
  (lines 11--12), opening the output and writing two four-byte placeholders
  (lines 13--17, \<open>fw_start\<close>), the loop that folds each line into the checksum,
  counts its length and copies it to the output (lines 21--24, \<open>fw_loop\<close>), and the
  seek back to offset 0 that overwrites the placeholders with the packed size and
  checksum (lines 26--31, \<open>fw_finish\<close>).  \<open>create_firmware_header\<close> is the whole
  run: from the command line and the file system to the new file system, the lines
  printed on standard output, and the exit status.

  \<open>fw_image\<close> is the image format of the spec (size, CRC-32 over tag and payload,
  payload) and \<open>fw_parse\<close> the reading of an image by a bootloader; the lemmas
  prove that a successful run writes exactly \<open>fw_image\<close>, and say what every
  failing run leaves behind.
\<close>

unbundle bit_operations_syntax

subsection \<open>The script\<close>

text \<open>\<open>b'0000'\<close>, written twice as room for the header (lines 15 and 17).\<close>

definition placeholder :: bytes where
  "placeholder = bytes_of ''0000''"

text \<open>The variables of the loop: \<open>crc\<close>, \<open>size\<close> and the output file.\<close>

record fw_state =
  fw_crc :: int
  fw_size :: int
  fw_fs :: fs
  fw_out :: wfile

text \<open>Lines 13--20: the output is open; two placeholders, then the checksum of the tag.\<close>

definition fw_start :: "bytes \<Rightarrow> fs \<Rightarrow> wfile \<Rightarrow> fw_state" where
  "fw_start tag s out =
     (let (s, out) = f_write s out placeholder;
          (s, out) = f_write s out placeholder
      in \<lparr>fw_crc = binascii_crc32 tag 0 AND 0xffffffff, fw_size = 0, fw_fs = s, fw_out = out\<rparr>)"

text \<open>Lines 21--24: \<open>for line in data\<close>.\<close>

fun fw_loop :: "fw_state \<Rightarrow> bytes list \<Rightarrow> fw_state" where
  "fw_loop st [] = st"
| "fw_loop st (line # data) =
     (let crc = binascii_crc32 line (fw_crc st) AND 0xffffffff;
          n = fw_size st + int (length line);
          (s, out) = f_write (fw_fs st) (fw_out st) line
      in fw_loop \<lparr>fw_crc = crc, fw_size = n, fw_fs = s, fw_out = out\<rparr> data)"

text \<open>Line 27: \<open>print "size", size, "crc %08x" % crc\<close>.\<close>

definition size_msg :: "int \<Rightarrow> int \<Rightarrow> string" where
  "size_msg n crc = ''size '' @ py_str_int n @ '' crc '' @ py_format_08x crc"

text \<open>
  Lines 26--31: seek to 0, print, pack and write the size, pack and write the
  checksum; the \<open>with\<close> block closes the file, and line 31 prints the last line.
  \<open>struct.pack\<close> raises for a size that does not fit 32 bits, after the print.
\<close>

definition fw_finish :: "path \<Rightarrow> fw_state \<Rightarrow> fs \<times> string list \<times> status" where
  "fw_finish outname st =
     (let out = f_seek (fw_out st) 0;
          msg = size_msg (fw_size st) (fw_crc st)
      in case struct_pack_I (fw_size st) of
           Inl e \<Rightarrow> (fw_fs st, [msg], Uncaught e)
         | Inr sz \<Rightarrow>
             (let (s, out) = f_write (fw_fs st) out sz
              in case struct_pack_I (fw_crc st) of
                   Inl e \<Rightarrow> (s, [msg], Uncaught e)
                 | Inr cb \<Rightarrow>
                     (fst (f_write s out cb),
                      [msg, ''Firmware file '' @ outname @ '' created.''], Exited 0)))"

text \<open>\<open>sys.argv[0]\<close>; the interpreter always supplies it.\<close>

definition py_argv0 :: "string list \<Rightarrow> string" where
  "py_argv0 argv = (case argv of [] \<Rightarrow> [] | a # _ \<Rightarrow> a)"

text \<open>
  The whole script.  Line 5 checks for fewer than three entries of \<open>sys.argv\<close>,
  but line 9 reads \<open>sys.argv[3]\<close>: with exactly three it raises \<open>IndexError\<close>.
  The input is read (line 12) before the output is opened and truncated (line 13).
\<close>

definition create_firmware_header :: "string list \<Rightarrow> fs \<Rightarrow> fs \<times> string list \<times> status" where
  "create_firmware_header argv s =
     (if length argv < 3
      then (s, [''Usage: '' @ py_argv0 argv @ '' [firmware] [new_fw]''], Exited 1)
      else if length argv < 4 then (s, [], Uncaught IndexError)
      else
        (let tag = bytes_of (argv ! 3)
         in case open_read s (argv ! 1) of
              Inl e \<Rightarrow> (s, [], Uncaught e)
            | Inr raw \<Rightarrow>
                (let data = py_readlines raw
                 in case open_write s (argv ! 2) of
                      Inl e \<Rightarrow> (s, [], Uncaught e)
                    | Inr (s1, out) \<Rightarrow> fw_finish (argv ! 2) (fw_loop (fw_start tag s1 out) data))))"

subsection \<open>The image format of the spec\<close>

definition fw_image :: "bytes \<Rightarrow> bytes \<Rightarrow> bytes" where
  "fw_image tag payload =
     le_bytes 4 (int (length payload)) @ le_bytes 4 (uint (crc32 (tag @ payload) 0)) @ payload"

definition fw_parse :: "bytes \<Rightarrow> (int \<times> int \<times> bytes) option" where
  "fw_parse img =
     (if length img < 8 then None
      else Some (le_value (take 4 img), le_value (take 4 (drop 4 img)), drop 8 img))"

text \<open>
  The contract of a run, branch by branch, as the spec and the script's own checks
  state it: usage error, missing tag, unreadable input, unwritable output, a
  payload whose size does not fit the header, and success.  The output path is the
  only path a run may change.
\<close>

definition fw_spec_run :: "string list \<Rightarrow> fs \<Rightarrow> fs \<times> string list \<times> status" where
  "fw_spec_run argv s =
     (if length argv < 3
      then (s, [''Usage: '' @ py_argv0 argv @ '' [firmware] [new_fw]''], Exited 1)
      else if length argv = 3 then (s, [], Uncaught IndexError)
      else case open_read s (argv ! 1) of
        Inl e \<Rightarrow> (s, [], Uncaught e)
      | Inr payload \<Rightarrow>
          if \<not> can_create s (argv ! 2) then (s, [], Uncaught (IOError (argv ! 2)))
          else
            (let tag = bytes_of (argv ! 3);
                 msg = size_msg (int (length payload)) (uint (crc32 (tag @ payload) 0))
             in if length payload \<le> 0xffffffff
                then (s\<lparr>files := (files s)(argv ! 2 \<mapsto> fw_image tag payload)\<rparr>,
                      [msg, ''Firmware file '' @ argv ! 2 @ '' created.''], Exited 0)
                else (s\<lparr>files := (files s)(argv ! 2 \<mapsto> placeholder @ placeholder @ payload)\<rparr>,
                      [msg], Uncaught StructError)))"

text \<open>A small file system and command line for the examples and witnesses below.\<close>

definition demo_fs :: fs where
  "demo_fs = \<lparr>files = [''fw.bin'' \<mapsto> [1, 2, 3, 4]], dirs = {}, unreadable = {}, unwritable = {}\<rparr>"

definition demo_argv :: "string list" where
  "demo_argv = [''create-firmware-header.py'', ''fw.bin'', ''fw.img'', ''v1'']"

text \<open>A payload of \<open>2^32\<close> bytes: one more than the header's size field can hold.\<close>

definition demo_big_fs :: fs where
  "demo_big_fs = demo_fs\<lparr>files := [''fw.bin'' \<mapsto> replicate 4294967296 0]\<rparr>"

declare placeholder_def [py_eval] size_msg_def [py_eval] py_argv0_def [py_eval]
  demo_fs_def [py_eval] demo_argv_def [py_eval] demo_big_fs_def [py_eval]

subsection \<open>The loop\<close>

text \<open>The masked result of \<open>binascii.crc32\<close> is the unsigned checksum.\<close>

lemma binascii_crc32_masked:
  "binascii_crc32 d c AND 0xffffffff = uint (crc32 d (word_of_int c))"
  by (simp add: binascii_crc32_def sint_and_mask32)

lemma uint_u32_range: "0 \<le> uint (w :: u32) \<and> uint w \<le> 0xffffffff"
  using uint_lt2p [of w] by simp

text \<open>
  The loop, for any lines: the checksum register ends as the CRC-32 of their
  concatenation, the size grows by its length, and the lines are appended to the
  output at the position the file object holds.
\<close>

lemma fw_loop_result:
  assumes "files (fw_fs st) (wf_path (fw_out st)) = Some c"
    and "wf_pos (fw_out st) = length c"
    and "0 \<le> fw_crc st" and "fw_crc st \<le> 0xffffffff"
  shows "fw_loop st data =
    \<lparr>fw_crc = uint (crc32 (concat data) (word_of_int (fw_crc st))),
     fw_size = fw_size st + int (length (concat data)),
     fw_fs = (fw_fs st)\<lparr>files := (files (fw_fs st))(wf_path (fw_out st) \<mapsto> c @ concat data)\<rparr>,
     fw_out = (fw_out st)\<lparr>wf_pos := length c + length (concat data)\<rparr>\<rparr>"
  using assms
proof (induction data arbitrary: st c)
  case Nil
  then show ?case
    by (simp add: map_upd_triv word_of_int_inverse)
next
  case (Cons line data)
  let ?p = "wf_path (fw_out st)"
  let ?st = "\<lparr>fw_crc = uint (crc32 line (word_of_int (fw_crc st))),
              fw_size = fw_size st + int (length line),
              fw_fs = (fw_fs st)\<lparr>files := (files (fw_fs st))(?p \<mapsto> c @ line)\<rparr>,
              fw_out = (fw_out st)\<lparr>wf_pos := length c + length line\<rparr>\<rparr>"
  have cont: "file_content (fw_fs st) ?p = c"
    using Cons.prems(1) by (simp add: file_content_def)
  have step: "fw_loop st (line # data) = fw_loop ?st data"
    using Cons.prems(2) cont
    by (simp add: binascii_crc32_masked f_write_append Let_def)
  have "fw_loop ?st data =
    \<lparr>fw_crc = uint (crc32 data' (word_of_int (fw_crc ?st))),
     fw_size = fw_size ?st + int (length data'),
     fw_fs = (fw_fs ?st)\<lparr>files := (files (fw_fs ?st))(?p \<mapsto> (c @ line) @ data')\<rparr>,
     fw_out = (fw_out ?st)\<lparr>wf_pos := length (c @ line) + length data'\<rparr>\<rparr>"
    if "data' = concat data" for data'
    using Cons.IH [of ?st "c @ line"] that uint_u32_range by (simp add: fun_upd_def cong: if_cong)
  then show ?case
    unfolding step by (simp add: crc32_append fun_upd_def cong: if_cong)
qed

lemma length_placeholder [simp]: "length placeholder = 4"
  by (simp add: placeholder_def)

lemma fw_start_result:
  "fw_start tag (s\<lparr>files := (files s)(p \<mapsto> [])\<rparr>) \<lparr>wf_path = p, wf_pos = 0\<rparr> =
   \<lparr>fw_crc = uint (crc32 tag 0), fw_size = 0,
    fw_fs = s\<lparr>files := (files s)(p \<mapsto> placeholder @ placeholder)\<rparr>,
    fw_out = \<lparr>wf_path = p, wf_pos = 8\<rparr>\<rparr>"
  by (simp add: fw_start_def f_write_append binascii_crc32_masked file_content_def)

text \<open>
  Lines 13--24 together: right before the seek of line 26 the output holds the two
  placeholders and the whole payload, the checksum variable holds the CRC-32 of the
  tag followed by the payload, and \<open>size\<close> its length, however \<open>readlines\<close> cut
  the payload into lines.
\<close>

lemma fw_body_result:
  "fw_loop (fw_start tag (s\<lparr>files := (files s)(p \<mapsto> [])\<rparr>) \<lparr>wf_path = p, wf_pos = 0\<rparr>)
           (py_readlines payload) =
   \<lparr>fw_crc = uint (crc32 (tag @ payload) 0), fw_size = int (length payload),
    fw_fs = s\<lparr>files := (files s)(p \<mapsto> placeholder @ placeholder @ payload)\<rparr>,
    fw_out = \<lparr>wf_path = p, wf_pos = 8 + length payload\<rparr>\<rparr>"
proof -
  let ?st = "fw_start tag (s\<lparr>files := (files s)(p \<mapsto> [])\<rparr>) \<lparr>wf_path = p, wf_pos = 0\<rparr>"
  have "fw_loop ?st (py_readlines payload) =
    \<lparr>fw_crc = uint (crc32 (concat (py_readlines payload)) (word_of_int (fw_crc ?st))),
     fw_size = fw_size ?st + int (length (concat (py_readlines payload))),
     fw_fs = (fw_fs ?st)\<lparr>files := (files (fw_fs ?st))(wf_path (fw_out ?st) \<mapsto>
               (placeholder @ placeholder) @ concat (py_readlines payload))\<rparr>,
     fw_out = (fw_out ?st)\<lparr>wf_pos := length (placeholder @ placeholder)
               + length (concat (py_readlines payload))\<rparr>\<rparr>"
    by (rule fw_loop_result) (simp_all add: fw_start_result uint_u32_range)
  then show ?thesis
    by (simp add: fw_start_result concat_py_readlines crc32_append)
qed

text \<open>Lines 26--31 when the size fits: the header replaces the placeholders.\<close>

lemma fw_finish_ok:
  assumes "wf_path (fw_out st) = p"
    and "files (fw_fs st) p = Some (h @ payload)" and "length h = 8"
    and "fw_size st = int n" and "n \<le> 0xffffffff" and "fw_crc st = uint (w :: u32)"
  shows "fw_finish p st =
    ((fw_fs st)\<lparr>files := (files (fw_fs st))(p \<mapsto> le_bytes 4 (int n) @ le_bytes 4 (uint w) @ payload)\<rparr>,
     [size_msg (int n) (uint w), ''Firmware file '' @ p @ '' created.''], Exited 0)"
proof -
  let ?sz = "le_bytes 4 (int n)" and ?cb = "le_bytes 4 (uint w)"
  have p1: "struct_pack_I (int n) = Inr ?sz"
    using assms(5) by (simp add: struct_pack_I_ok)
  have p2: "struct_pack_I (uint w) = Inr ?cb"
    by (rule struct_pack_I_uint)
  have w1: "f_write (fw_fs st) (f_seek (fw_out st) 0) ?sz =
    ((fw_fs st)\<lparr>files := (files (fw_fs st))(p \<mapsto> ?sz @ drop 4 h @ payload)\<rparr>,
     (fw_out st)\<lparr>wf_pos := 4\<rparr>)"
    using assms(1-3) by (simp add: f_write_def f_seek_def file_content_def write_at_def)
  have w2: "fst (f_write ((fw_fs st)\<lparr>files := (files (fw_fs st))(p \<mapsto> ?sz @ drop 4 h @ payload)\<rparr>)
                        ((fw_out st)\<lparr>wf_pos := 4\<rparr>) ?cb) =
    (fw_fs st)\<lparr>files := (files (fw_fs st))(p \<mapsto> ?sz @ ?cb @ payload)\<rparr>"
    using assms(1,3) by (simp add: f_write_def file_content_def write_at_def)
  show ?thesis
    using assms(4,6) by (simp add: fw_finish_def Let_def p1 p2 w1 w2)
qed

text \<open>Lines 26--28 when the size does not fit: \<open>struct.pack\<close> raises after the print.\<close>

lemma fw_finish_oversize:
  "0xffffffff < fw_size st \<Longrightarrow>
   fw_finish p st = (fw_fs st, [size_msg (fw_size st) (fw_crc st)], Uncaught StructError)"
  by (simp add: fw_finish_def struct_pack_I_def)

subsection \<open>The run, branch by branch\<close>

lemma run_opened:
  assumes "4 \<le> length argv" and "open_read s (argv ! 1) = Inr payload"
    and "can_create s (argv ! 2)"
  shows "create_firmware_header argv s =
    fw_finish (argv ! 2)
      (fw_loop (fw_start (bytes_of (argv ! 3)) (s\<lparr>files := (files s)(argv ! 2 \<mapsto> [])\<rparr>)
                          \<lparr>wf_path = argv ! 2, wf_pos = 0\<rparr>) (py_readlines payload))"
  using assms by (simp add: create_firmware_header_def open_write_def Let_def)

lemma run_success:
  assumes "4 \<le> length argv" and "open_read s (argv ! 1) = Inr payload"
    and "can_create s (argv ! 2)" and "length payload \<le> 0xffffffff"
  shows "create_firmware_header argv s =
    (s\<lparr>files := (files s)(argv ! 2 \<mapsto> fw_image (bytes_of (argv ! 3)) payload)\<rparr>,
     [size_msg (int (length payload)) (uint (crc32 (bytes_of (argv ! 3) @ payload) 0)),
      ''Firmware file '' @ argv ! 2 @ '' created.''], Exited 0)"
proof -
  let ?p = "argv ! 2" and ?tag = "bytes_of (argv ! 3)"
  let ?st = "fw_loop (fw_start ?tag (s\<lparr>files := (files s)(?p \<mapsto> [])\<rparr>) \<lparr>wf_path = ?p, wf_pos = 0\<rparr>)
                     (py_readlines payload)"
  have "fw_finish ?p ?st =
    ((fw_fs ?st)\<lparr>files := (files (fw_fs ?st))(?p \<mapsto> le_bytes 4 (int (length payload))
        @ le_bytes 4 (uint (crc32 (?tag @ payload) 0)) @ payload)\<rparr>,
     [size_msg (int (length payload)) (uint (crc32 (?tag @ payload) 0)),
      ''Firmware file '' @ ?p @ '' created.''], Exited 0)"
    by (rule fw_finish_ok [where h = "placeholder @ placeholder"])
      (simp_all add: fw_body_result assms(4))
  then show ?thesis
    using run_opened [OF assms(1-3)] by (simp add: fw_body_result fw_image_def)
qed

lemma run_oversize:
  assumes "4 \<le> length argv" and "open_read s (argv ! 1) = Inr payload"
    and "can_create s (argv ! 2)" and "0xffffffff < length payload"
  shows "create_firmware_header argv s =
    (s\<lparr>files := (files s)(argv ! 2 \<mapsto> placeholder @ placeholder @ payload)\<rparr>,
     [size_msg (int (length payload)) (uint (crc32 (bytes_of (argv ! 3) @ payload) 0))],
     Uncaught StructError)"
  using run_opened [OF assms(1-3)] assms(4)
  by (simp add: fw_body_result fw_finish_oversize)

lemma run_not_opened:
  assumes "4 \<le> length argv" and "open_read s (argv ! 1) = Inr payload"
    and "\<not> can_create s (argv ! 2)"
  shows "create_firmware_header argv s = (s, [], Uncaught (IOError (argv ! 2)))"
  using assms by (simp add: create_firmware_header_def open_write_def Let_def)

lemma run_no_input:
  "4 \<le> length argv \<Longrightarrow> open_read s (argv ! 1) = Inl e \<Longrightarrow>
   create_firmware_header argv s = (s, [], Uncaught e)"
  by (simp add: create_firmware_header_def Let_def)

lemma run_short_argv:
  "length argv < 4 \<Longrightarrow>
   create_firmware_header argv s =
     (if length argv < 3 then (s, [''Usage: '' @ py_argv0 argv @ '' [firmware] [new_fw]''], Exited 1)
      else (s, [], Uncaught IndexError))"
  by (simp add: create_firmware_header_def)

lemmas run_branches = run_success run_oversize run_not_opened run_no_input run_short_argv

text \<open>
  The case analysis every property of a run starts from: the six ways a run ends,
  each with its exact result.
\<close>

lemma run_cases:
  obtains (usage) "length argv < 3"
    "create_firmware_header argv s =
       (s, [''Usage: '' @ py_argv0 argv @ '' [firmware] [new_fw]''], Exited 1)"
  | (index) "length argv = 3" "create_firmware_header argv s = (s, [], Uncaught IndexError)"
  | (no_input) e where "4 \<le> length argv" "open_read s (argv ! 1) = Inl e"
    "create_firmware_header argv s = (s, [], Uncaught e)"
  | (no_output) payload where "4 \<le> length argv" "open_read s (argv ! 1) = Inr payload"
    "\<not> can_create s (argv ! 2)"
    "create_firmware_header argv s = (s, [], Uncaught (IOError (argv ! 2)))"
  | (oversize) payload where "4 \<le> length argv" "open_read s (argv ! 1) = Inr payload"
    "can_create s (argv ! 2)" "0xffffffff < length payload"
    "create_firmware_header argv s =
      (s\<lparr>files := (files s)(argv ! 2 \<mapsto> placeholder @ placeholder @ payload)\<rparr>,
       [size_msg (int (length payload)) (uint (crc32 (bytes_of (argv ! 3) @ payload) 0))],
       Uncaught StructError)"
  | (success) payload where "4 \<le> length argv" "open_read s (argv ! 1) = Inr payload"
    "can_create s (argv ! 2)" "length payload \<le> 0xffffffff"
    "create_firmware_header argv s =
      (s\<lparr>files := (files s)(argv ! 2 \<mapsto> fw_image (bytes_of (argv ! 3)) payload)\<rparr>,
       [size_msg (int (length payload)) (uint (crc32 (bytes_of (argv ! 3) @ payload) 0)),
        ''Firmware file '' @ argv ! 2 @ '' created.''], Exited 0)"
proof (cases "length argv < 4")
  case True
  then show ?thesis
    using that(1,2) by (cases "length argv < 3") (simp_all add: run_short_argv)
next
  case False
  then have four: "4 \<le> length argv" by simp
  show ?thesis
  proof (cases "open_read s (argv ! 1)")
    case (Inl e)
    then show ?thesis using that(3) four run_no_input by blast
  next
    case (Inr payload)
    show ?thesis
    proof (cases "can_create s (argv ! 2)")
      case False
      then show ?thesis using that(4) four Inr run_not_opened by blast
    next
      case True
      then show ?thesis
        using that(5,6) four Inr run_success run_oversize not_less by blast
    qed
  qed
qed

lemma fw_parse_fw_image:
  "length payload \<le> 0xffffffff \<Longrightarrow>
   fw_parse (fw_image tag payload) =
     Some (int (length payload), uint (crc32 (tag @ payload) 0), payload)"
  using uint_u32_range [of "crc32 (tag @ payload) 0"]
  by (simp add: fw_parse_def fw_image_def le_value_le_bytes4)

subsection \<open>Properties of a run\<close>

text \<open>
  C1.  Refinement: the script implements the contract of a run, \<open>fw_spec_run\<close>, on
  every input: on success it writes exactly the image the spec's format describes
  (size, CRC-32 over tag and payload, payload), and each failure ends with the
  documented result.
\<close>

theorem create_firmware_header_refines:
  "create_firmware_header argv s = fw_spec_run argv s"
  by (cases rule: run_cases [of argv s]) (simp_all add: fw_spec_run_def Let_def)

text \<open>
  C3.  Failure before any output: when the input cannot be read (missing, a
  directory, no permission), the run changes no file (an existing output keeps its
  content), prints nothing, and exits with status 1.
\<close>

theorem create_firmware_header_input_error:
  assumes "4 \<le> length argv" and "open_read s (argv ! 1) = Inl e"
  shows "fst (create_firmware_header argv s) = s \<and> fst (snd (create_firmware_header argv s)) = []
         \<and> exit_code (snd (snd (create_firmware_header argv s))) = 1"
  by (cases rule: run_cases [of argv s]) (use assms in simp_all)

theorem create_firmware_header_input_error_witness:
  "4 \<le> length (demo_argv[1 := ''missing.bin''])
   \<and> open_read demo_fs (demo_argv[1 := ''missing.bin''] ! 1) = Inl (IOError ''missing.bin'')
   \<and> fst (create_firmware_header (demo_argv[1 := ''missing.bin'']) demo_fs) = demo_fs"
proof -
  have h: "4 \<le> length (demo_argv[1 := ''missing.bin''])"
    "open_read demo_fs (demo_argv[1 := ''missing.bin''] ! 1) = Inl (IOError ''missing.bin'')"
    by (simp_all add: py_eval)
  show ?thesis
    using create_firmware_header_input_error [OF h] h by blast
qed

text \<open>
  C4.  With exactly two arguments (three entries of \<open>sys.argv\<close>) the guard of line 5
  lets the run through and line 9 raises \<open>IndexError\<close>: no usage message is printed,
  and no file is touched.
\<close>

theorem create_firmware_header_three_args:
  assumes "length argv = 3"
  shows "create_firmware_header argv s = (s, [], Uncaught IndexError)"
  by (cases rule: run_cases [of argv s]) (use assms in simp_all)

theorem create_firmware_header_three_args_witness:
  "length (take 3 demo_argv) = 3
   \<and> create_firmware_header (take 3 demo_argv) demo_fs = (demo_fs, [], Uncaught IndexError)"
proof -
  have h: "length (take 3 demo_argv) = 3" by (simp add: py_eval)
  show ?thesis using create_firmware_header_three_args [OF h] h by simp
qed

text \<open>
  C5.  Frame: a run changes at most the entry of the output path; every other file,
  the directories and the permissions are as before.
\<close>

theorem create_firmware_header_frame:
  "fst (create_firmware_header argv s) =
     s\<lparr>files := (files s)(argv ! 2 := files (fst (create_firmware_header argv s)) (argv ! 2))\<rparr>"
  by (cases rule: run_cases [of argv s]) simp_all

text \<open>
  C6.  Idempotence: when the input and output paths differ, running the script
  again on the file system it produced gives the same file system, the same
  output lines and the same status.
\<close>

theorem create_firmware_header_idempotent:
  assumes "argv ! 1 \<noteq> argv ! 2"
  shows "create_firmware_header argv (fst (create_firmware_header argv s)) =
         create_firmware_header argv s"
proof (cases rule: run_cases [of argv s])
  case (oversize payload)
  let ?s' = "s\<lparr>files := (files s)(argv ! 2 \<mapsto> placeholder @ placeholder @ payload)\<rparr>"
  have "open_read ?s' (argv ! 1) = Inr payload"
    using oversize assms by (simp add: open_read_upd_other)
  then show ?thesis
    using oversize run_oversize [of argv ?s' payload] by simp
next
  case (success payload)
  let ?s' = "s\<lparr>files := (files s)(argv ! 2 \<mapsto> fw_image (bytes_of (argv ! 3)) payload)\<rparr>"
  have "open_read ?s' (argv ! 1) = Inr payload"
    using success assms by (simp add: open_read_upd_other)
  then show ?thesis
    using success run_success [of argv ?s' payload] by simp
qed simp_all

theorem create_firmware_header_idempotent_witness:
  "demo_argv ! 1 \<noteq> demo_argv ! 2
   \<and> create_firmware_header demo_argv (fst (create_firmware_header demo_argv demo_fs)) =
     create_firmware_header demo_argv demo_fs"
proof -
  have h: "demo_argv ! 1 \<noteq> demo_argv ! 2" by (simp add: py_eval)
  show ?thesis using create_firmware_header_idempotent [OF h] h by simp
qed

text \<open>
  The file-system invariant (no path both a file and a directory, every file in an
  existing directory) holds after every run that starts from a state where it holds.
\<close>

lemma create_firmware_header_fs_wf:
  assumes "fs_wf s"
  shows "fs_wf (fst (create_firmware_header argv s))"
  by (cases rule: run_cases [of argv s]) (use assms in \<open>simp_all add: fs_wf_create\<close>)


text \<open>
  C8.  The exit status is 0 exactly when there are at least three arguments, the
  input is readable, the output can be created, and the payload's size fits the
  32-bit header field; every other run exits with a non-zero status.
\<close>

theorem create_firmware_header_exit_code:
  "exit_code (snd (snd (create_firmware_header argv s))) = 0 \<longleftrightarrow>
     4 \<le> length argv \<and> can_create s (argv ! 2) \<and>
     (case open_read s (argv ! 1) of Inl e \<Rightarrow> False | Inr payload \<Rightarrow> length payload \<le> 0xffffffff)"
  by (cases rule: run_cases [of argv s]) simp_all

theorem create_firmware_header_exit_code_witness:
  "exit_code (snd (snd (create_firmware_header demo_argv demo_fs))) = 0
   \<and> exit_code (snd (snd (create_firmware_header demo_argv demo_big_fs))) \<noteq> 0"
proof -
  have ok: "4 \<le> length demo_argv \<and> can_create demo_fs (demo_argv ! 2) \<and>
     (case open_read demo_fs (demo_argv ! 1) of Inl e \<Rightarrow> False
      | Inr payload \<Rightarrow> length payload \<le> 0xffffffff)"
    by (simp add: py_eval)
  have big: "\<not> (4 \<le> length demo_argv \<and> can_create demo_big_fs (demo_argv ! 2) \<and>
     (case open_read demo_big_fs (demo_argv ! 1) of Inl e \<Rightarrow> False
      | Inr payload \<Rightarrow> length payload \<le> 0xffffffff))"
    by (simp add: py_eval)
  show ?thesis
    using create_firmware_header_exit_code [of demo_argv demo_fs]
      create_firmware_header_exit_code [of demo_argv demo_big_fs] ok big by blast
qed

text \<open>
  C9.  A payload of \<open>2^32\<close> bytes or more: \<open>struct.pack\<close> raises after the output was
  truncated and filled, so the output is left holding the eight ASCII \<open>'0'\<close>
  placeholder bytes followed by the payload, and the run ends with
  \<open>struct.error\<close>.
\<close>

theorem create_firmware_header_oversize:
  assumes "4 \<le> length argv" and "open_read s (argv ! 1) = Inr payload"
    and "can_create s (argv ! 2)" and "0xffffffff < length payload"
  shows "files (fst (create_firmware_header argv s)) (argv ! 2) = Some (bytes_of ''00000000'' @ payload)
         \<and> snd (snd (create_firmware_header argv s)) = Uncaught StructError"
  using run_oversize [OF assms] by (simp add: placeholder_def bytes_of_def)

theorem create_firmware_header_oversize_witness:
  "4 \<le> length demo_argv \<and> open_read demo_big_fs (demo_argv ! 1) = Inr (replicate 4294967296 0)
   \<and> can_create demo_big_fs (demo_argv ! 2) \<and> 0xffffffff < length (replicate 4294967296 (0 :: byte))
   \<and> snd (snd (create_firmware_header demo_argv demo_big_fs)) = Uncaught StructError"
proof -
  have h: "4 \<le> length demo_argv" "open_read demo_big_fs (demo_argv ! 1) = Inr (replicate 4294967296 0)"
    "can_create demo_big_fs (demo_argv ! 2)" "0xffffffff < length (replicate 4294967296 (0 :: byte))"
    by (simp_all add: py_eval)
  show ?thesis using create_firmware_header_oversize [OF h] h by blast
qed

text \<open>
  C10.  The checksum loop of lines 21--24, for any division of the payload into
  chunks: the masked \<open>binascii.crc32\<close> chain ends with the CRC-32 of the whole
  concatenation, and \<open>size\<close> with its length.
\<close>

theorem fw_loop_checksum:
  assumes "0 \<le> fw_crc st" and "fw_crc st \<le> 0xffffffff"
  shows "fw_crc (fw_loop st lines) = uint (crc32 (concat lines) (word_of_int (fw_crc st)))
         \<and> fw_size (fw_loop st lines) = fw_size st + int (length (concat lines))"
  using assms
proof (induction lines arbitrary: st)
  case Nil
  then show ?case by (simp add: word_of_int_inverse)
next
  case (Cons line lines)
  then show ?case
    using uint_u32_range
    by (simp add: binascii_crc32_masked crc32_append Let_def split: prod.splits)
qed

theorem fw_loop_checksum_witness:
  "0 \<le> fw_crc (fw_start (bytes_of ''v1'') demo_fs \<lparr>wf_path = ''fw.img'', wf_pos = 0\<rparr>)
   \<and> fw_crc (fw_start (bytes_of ''v1'') demo_fs \<lparr>wf_path = ''fw.img'', wf_pos = 0\<rparr>) \<le> 0xffffffff
   \<and> fw_crc (fw_loop (fw_start (bytes_of ''v1'') demo_fs \<lparr>wf_path = ''fw.img'', wf_pos = 0\<rparr>)
        [[1, 2], [3, 4]]) = 0x6780fa98"
proof -
  let ?st = "fw_start (bytes_of ''v1'') demo_fs \<lparr>wf_path = ''fw.img'', wf_pos = 0\<rparr>"
  have c0: "fw_crc ?st = uint (crc32 (bytes_of ''v1'') 0)"
    by (simp add: fw_start_def binascii_crc32_masked Let_def split: prod.splits)
  have h: "0 \<le> fw_crc ?st" "fw_crc ?st \<le> 0xffffffff"
    using c0 uint_u32_range by simp_all
  have "uint (crc32 (concat [[1, 2], [3, 4]]) (word_of_int (uint (crc32 (bytes_of ''v1'') 0)))) =
        0x6780fa98"
    by (simp add: crc_eval py_eval)
  then show ?thesis
    using fw_loop_checksum [OF h, of "[[1, 2], [3, 4]]"] h c0 by simp
qed

end
