(* ===== verification/PyStr.thy ===== *)
theory PyStr
  imports Prelude
begin

text \<open>
  The Python 2 \<open>str\<close> methods the scripts use, on byte strings (\<^typ>\<open>string\<close>):
  \<open>startswith\<close>, \<open>strip()\<close> and \<open>strip(chars)\<close>, \<open>rstrip(chars)\<close>, \<open>lower()\<close>
  (ASCII letters only, as on a byte string), \<open>split()\<close> on runs of whitespace,
  \<open>split(sep, 1)\<close>, and list indexing that raises \<open>IndexError\<close>.  The lemmas say
  what each returns: stripped strings have no stripped character at their ends,
  the fields of \<open>split()\<close> are non-empty and hold no whitespace, and lowering is
  idempotent.
\<close>

text \<open>A line read from a file opened in text mode, as a string of its bytes.\<close>

definition chars_of :: "bytes \<Rightarrow> string" where
  "chars_of bs = map (\<lambda>b. char_of (unat b)) bs"

definition py_whitespace :: string where
  "py_whitespace = [CHR '' '', CHR 0x09, CHR 0x0A, CHR 0x0B, CHR 0x0C, CHR 0x0D]"

definition py_startswith :: "string \<Rightarrow> string \<Rightarrow> bool" where
  "py_startswith s p \<longleftrightarrow> take (length p) s = p"

definition py_lstrip :: "string \<Rightarrow> string \<Rightarrow> string" where
  "py_lstrip cs s = dropWhile (\<lambda>c. c \<in> set cs) s"

definition py_rstrip :: "string \<Rightarrow> string \<Rightarrow> string" where
  "py_rstrip cs s = rev (dropWhile (\<lambda>c. c \<in> set cs) (rev s))"

definition py_strip_chars :: "string \<Rightarrow> string \<Rightarrow> string" where
  "py_strip_chars cs s = py_rstrip cs (py_lstrip cs s)"

definition py_strip :: "string \<Rightarrow> string" where
  "py_strip s = py_strip_chars py_whitespace s"

definition py_lower_char :: "char \<Rightarrow> char" where
  "py_lower_char c =
     (let k = (of_char c :: nat) in if 65 \<le> k \<and> k \<le> 90 then char_of (k + 32) else c)"

definition py_lower :: "string \<Rightarrow> string" where
  "py_lower s = map py_lower_char s"

text \<open>\<open>s.split()\<close>: the maximal runs of non-whitespace characters.\<close>

function py_split_ws :: "string \<Rightarrow> string list" where
  "py_split_ws s =
     (let s' = dropWhile (\<lambda>c. c \<in> set py_whitespace) s
      in if s' = [] then []
         else takeWhile (\<lambda>c. c \<notin> set py_whitespace) s'
              # py_split_ws (dropWhile (\<lambda>c. c \<notin> set py_whitespace) s'))"
  by pat_completeness auto
termination
proof (relation "measure length")
  fix s s' :: string
  assume s': "s' = dropWhile (\<lambda>c. c \<in> set py_whitespace) s" and ne: "s' \<noteq> []"
  then have "\<not> hd s' \<in> set py_whitespace"
    using hd_dropWhile by blast
  then have "length (dropWhile (\<lambda>c. c \<notin> set py_whitespace) s') < length s'"
    using ne by (cases s') (auto simp: length_dropWhile_le le_imp_less_Suc)
  moreover have "length s' \<le> length s"
    using s' by (simp add: length_dropWhile_le)
  ultimately show "(dropWhile (\<lambda>c. c \<notin> set py_whitespace) s', s) \<in> measure length"
    by simp
qed simp

declare py_split_ws.simps [simp del]

text \<open>
  \<open>s.split(c, 1)\<close> for a one-character separator: the part before the first
  \<open>c\<close> and the rest, or \<^const>\<open>None\<close> for the one-element list Python returns
  when \<open>c\<close> does not occur.
\<close>

definition py_split1 :: "char \<Rightarrow> string \<Rightarrow> (string \<times> string) option" where
  "py_split1 c s =
     (case dropWhile (\<lambda>x. x \<noteq> c) s of
        [] \<Rightarrow> None
      | _ # rest \<Rightarrow> Some (takeWhile (\<lambda>x. x \<noteq> c) s, rest))"

definition py_index :: "'a list \<Rightarrow> nat \<Rightarrow> py_exc + 'a" where
  "py_index xs i = (if i < length xs then Inr (xs ! i) else Inl IndexError)"

declare py_whitespace_def [py_eval] py_startswith_def [py_eval] py_lstrip_def [py_eval]
  py_rstrip_def [py_eval] py_strip_chars_def [py_eval] py_strip_def [py_eval]
  py_lower_char_def [py_eval] py_lower_def [py_eval] py_split1_def [py_eval]
  py_index_def [py_eval]

subsection \<open>What the methods return\<close>

lemma py_rstrip_last: "py_rstrip cs s \<noteq> [] \<Longrightarrow> last (py_rstrip cs s) \<notin> set cs"
proof -
  assume ne: "py_rstrip cs s \<noteq> []"
  then have "dropWhile (\<lambda>c. c \<in> set cs) (rev s) \<noteq> []"
    by (simp add: py_rstrip_def)
  then have "hd (dropWhile (\<lambda>c. c \<in> set cs) (rev s)) \<notin> set cs"
    using hd_dropWhile by blast
  then show ?thesis
    using ne by (simp add: py_rstrip_def last_rev)
qed

lemma py_lstrip_hd: "py_lstrip cs s \<noteq> [] \<Longrightarrow> hd (py_lstrip cs s) \<notin> set cs"
  unfolding py_lstrip_def by (rule hd_dropWhile)

lemma py_rstrip_prefix: "\<exists>t. s = py_rstrip cs s @ t \<and> set t \<subseteq> set cs"
proof -
  let ?d = "dropWhile (\<lambda>c. c \<in> set cs) (rev s)"
  let ?t = "takeWhile (\<lambda>c. c \<in> set cs) (rev s)"
  have "rev s = ?t @ ?d" by simp
  then have "s = rev ?d @ rev ?t"
    by (metis rev_append rev_rev_ident)
  moreover have "set (rev ?t) \<subseteq> set cs"
    by (auto dest: set_takeWhileD)
  ultimately show ?thesis
    unfolding py_rstrip_def by blast
qed

lemma set_py_lstrip: "set (py_lstrip cs s) \<subseteq> set s"
  by (simp add: py_lstrip_def set_dropWhileD subsetI)

lemma set_py_rstrip: "set (py_rstrip cs s) \<subseteq> set s"
  using py_rstrip_prefix [of s cs] by (metis Un_upper1 set_append)

lemma set_py_strip_chars: "set (py_strip_chars cs s) \<subseteq> set s"
  using set_py_lstrip set_py_rstrip unfolding py_strip_chars_def by blast

lemma py_strip_chars_last:
  "py_strip_chars cs s \<noteq> [] \<Longrightarrow> last (py_strip_chars cs s) \<notin> set cs"
  unfolding py_strip_chars_def by (rule py_rstrip_last)

lemma py_strip_chars_hd:
  assumes ne: "py_strip_chars cs s \<noteq> []"
  shows "hd (py_strip_chars cs s) \<notin> set cs"
proof -
  obtain t where t: "py_lstrip cs s = py_rstrip cs (py_lstrip cs s) @ t"
    using py_rstrip_prefix by blast
  have "py_rstrip cs (py_lstrip cs s) \<noteq> []"
    using ne by (simp add: py_strip_chars_def)
  then have "hd (py_lstrip cs s) = hd (py_rstrip cs (py_lstrip cs s))" and "py_lstrip cs s \<noteq> []"
    using t by (metis hd_append2, metis append_is_Nil_conv)
  then show ?thesis
    using py_lstrip_hd [of cs s] by (simp add: py_strip_chars_def)
qed

lemma py_startswith_prefix:
  "py_startswith s p \<Longrightarrow> py_startswith s q \<Longrightarrow> length p \<le> length q \<Longrightarrow> py_startswith q p"
  unfolding py_startswith_def by (metis min.absorb1 take_take)

lemma py_lower_char_idem [simp]: "py_lower_char (py_lower_char c) = py_lower_char c"
proof (cases "65 \<le> (of_char c :: nat) \<and> (of_char c :: nat) \<le> 90")
  case True
  then have "(of_char (char_of (of_char c + 32 :: nat)) :: nat) = of_char c + 32"
    by simp
  with True show ?thesis
    by (simp add: py_lower_char_def Let_def)
next
  case False
  then show ?thesis
    by (auto simp: py_lower_char_def Let_def)
qed

lemma py_lower_idem [simp]: "py_lower (py_lower s) = py_lower s"
  by (simp add: py_lower_def comp_def)

lemma py_split_ws_fields:
  "w \<in> set (py_split_ws s) \<Longrightarrow> w \<noteq> [] \<and> set w \<inter> set py_whitespace = {}"
proof (induction s rule: py_split_ws.induct)
  case (1 s)
  let ?s' = "dropWhile (\<lambda>c. c \<in> set py_whitespace) s"
  show ?case
  proof (cases "?s' = []")
    case True
    with "1.prems" show ?thesis by (simp add: py_split_ws.simps [of s] del: dropWhile_eq_Nil_conv)
  next
    case False
    then have hd: "hd ?s' \<notin> set py_whitespace"
      using hd_dropWhile by blast
    from "1.prems" False
    have "w = takeWhile (\<lambda>c. c \<notin> set py_whitespace) ?s'
          \<or> w \<in> set (py_split_ws (dropWhile (\<lambda>c. c \<notin> set py_whitespace) ?s'))"
      by (simp add: py_split_ws.simps [of s] Let_def del: dropWhile_eq_Nil_conv)
    then show ?thesis
    proof
      assume w: "w = takeWhile (\<lambda>c. c \<notin> set py_whitespace) ?s'"
      have "w \<noteq> []"
        using w False hd by (cases ?s') auto
      moreover have "set w \<inter> set py_whitespace = {}"
        using w by (auto dest: set_takeWhileD)
      ultimately show ?thesis by blast
    next
      assume "w \<in> set (py_split_ws (dropWhile (\<lambda>c. c \<notin> set py_whitespace) ?s'))"
      with "1.IH" False show ?thesis by blast
    qed
  qed
qed

lemma chars_of_bytes_of [simp]: "chars_of (bytes_of s) = s"
proof -
  have "char_of (unat (byte_of_char c)) = c" for c
    by (simp add: byte_of_char_def unat_of_nat)
  then show ?thesis by (simp add: chars_of_def bytes_of_def map_idI)
qed

lemma py_split1_None: "py_split1 c s = None \<longleftrightarrow> c \<notin> set s"
proof -
  have "dropWhile (\<lambda>x. x \<noteq> c) s = [] \<longleftrightarrow> c \<notin> set s"
    by auto
  then show ?thesis
    by (cases "dropWhile (\<lambda>x. x \<noteq> c) s") (simp_all add: py_split1_def del: dropWhile_eq_Nil_conv)
qed

lemma py_index_Inr: "py_index xs i = Inr x \<longleftrightarrow> i < length xs \<and> x = xs ! i"
  by (auto simp: py_index_def)

end
