(* ===== verification/Findrev.thy ===== *)
theory Findrev
  imports PyIO PyStr
begin

text \<open>
  The version extraction utility \<open>src/findrev.py\<close>: it scans a C header line by
  line; a line \<open>#if (ARCH & ARCH_X)\<close> or \<open>#elif (ARCH & ARCH_X)\<close> whose lower-cased
  board name \<open>x\<close> equals the board argument sets \<open>board_found\<close>; while it is set,
  the \<open>#define VERS_*\<close> lines are read into variables and a
  \<open>#define FIRMWARE_VERSION\<close> line prints its value without quotes and clears the
  flag.  The script's variables are the record \<open>fr_state\<close> (a variable not yet
  assigned is \<^const>\<open>None\<close>, what the script has printed is \<open>stdout\<close>); one iteration
  of the loop is \<open>fr_step\<close>, which may raise; the loop stops at the first
  exception, keeping what was printed.  The lemmas say what can be printed and how
  often, and when the script ends with an exception.
\<close>

record fr_state =
  board_found :: bool
  major :: "string option"
  minor :: "string option"
  rev' :: "string option"
  rc :: "string option"
  version :: "string option"
  stdout :: "string list"

definition fr_init :: fr_state where
  "fr_init = \<lparr>board_found = False, major = None, minor = None, rev' = None, rc = None,
              version = None, stdout = []\<rparr>"

definition arch_if :: string where
  "arch_if = ''#if (ARCH & ARCH_''"

definition arch_elif :: string where
  "arch_elif = ''#elif (ARCH & ARCH_''"

definition arch_line :: "string \<Rightarrow> bool" where
  "arch_line l \<longleftrightarrow> py_startswith l arch_if \<or> py_startswith l arch_elif"

text \<open>The characters \<open>") \n\r\t"\<close> stripped from the right of the board name.\<close>

definition arch_strip :: string where
  "arch_strip = [CHR '')'', CHR '' '', CHR 0x0A, CHR 0x0D, CHR 0x09]"

definition arch_board :: "string \<Rightarrow> py_exc + string" where
  "arch_board l =
     (case py_split1 (CHR ''_'') l of
        None \<Rightarrow> Inl IndexError
      | Some (_, r) \<Rightarrow> Inr (py_lower (py_rstrip arch_strip r)))"

definition fr_select :: "string \<Rightarrow> string \<Rightarrow> fr_state \<Rightarrow> py_exc + fr_state" where
  "fr_select board l st =
     (if arch_line l
      then exc_bind (arch_board l) (\<lambda>b. Inr (if b = board then st\<lparr>board_found := True\<rparr> else st))
      else Inr st)"

definition define_line :: "string \<Rightarrow> string \<Rightarrow> bool" where
  "define_line name l \<longleftrightarrow> py_startswith (py_strip l) (''#define '' @ name)"

text \<open>\<open>if l.strip().startswith("#define NAME"): var = l.split()[2]\<close>\<close>

definition fr_assign ::
  "string \<Rightarrow> ((string option \<Rightarrow> string option) \<Rightarrow> fr_state \<Rightarrow> fr_state)
   \<Rightarrow> string \<Rightarrow> fr_state \<Rightarrow> py_exc + fr_state" where
  "fr_assign name upd l st =
     (if define_line name l
      then exc_bind (py_index (py_split_ws l) 2) (\<lambda>v. Inr (upd (\<lambda>_. Some v) st))
      else Inr st)"

definition fr_version :: "string \<Rightarrow> fr_state \<Rightarrow> py_exc + fr_state" where
  "fr_version l st =
     (if define_line ''FIRMWARE_VERSION'' l
      then exc_bind (py_index (py_split_ws l) 2) (\<lambda>v.
             let v' = py_strip_chars [CHR 0x22] v
             in Inr (st\<lparr>version := Some v', stdout := stdout st @ [v'], board_found := False\<rparr>))
      else Inr st)"

definition fr_defines :: "string \<Rightarrow> fr_state \<Rightarrow> py_exc + fr_state" where
  "fr_defines l st =
     exc_bind (fr_assign ''VERS_MAJOR'' major_update l st) (\<lambda>st.
     exc_bind (fr_assign ''VERS_MINOR'' minor_update l st) (\<lambda>st.
     exc_bind (fr_assign ''VERS_REV'' rev'_update l st) (\<lambda>st.
     exc_bind (fr_assign ''VERS_RC'' rc_update l st) (\<lambda>st.
     fr_version l st))))"

definition fr_step :: "string \<Rightarrow> fr_state \<Rightarrow> string \<Rightarrow> py_exc + fr_state" where
  "fr_step board st l =
     exc_bind (fr_select board l st) (\<lambda>st. if board_found st then fr_defines l st else Inr st)"

fun fr_loop :: "string \<Rightarrow> fr_state \<Rightarrow> string list \<Rightarrow> fr_state \<times> py_exc option" where
  "fr_loop board st [] = (st, None)"
| "fr_loop board st (l # ls) =
     (case fr_step board st l of
        Inl e \<Rightarrow> (st, Some e)
      | Inr st' \<Rightarrow> fr_loop board st' ls)"

definition fr_official :: "string list \<Rightarrow> bool" where
  "fr_official argv \<longleftrightarrow> 3 < length argv \<and> argv ! 3 = ''official''"

definition findrev :: "string list \<Rightarrow> fs \<Rightarrow> string list \<times> status" where
  "findrev argv s =
     (if length argv < 2 then ([], Uncaught IndexError)
      else if length argv < 3 then ([], Uncaught IndexError)
      else case open_read s (argv ! 1) of
             Inl e \<Rightarrow> ([], Uncaught e)
           | Inr data \<Rightarrow>
               let official = fr_official argv;
                   (st, r) = fr_loop (argv ! 2) fr_init (map chars_of (py_readlines data))
               in (stdout st, case r of None \<Rightarrow> Exited 0 | Some e \<Rightarrow> Uncaught e))"

text \<open>
  What a line prints when the flag is set: the third field of a
  \<open>#define FIRMWARE_VERSION\<close> line, quotes stripped; and the lines that set the
  flag for a board.
\<close>

definition fw_version_of :: "string \<Rightarrow> string option" where
  "fw_version_of l =
     (if define_line ''FIRMWARE_VERSION'' l
      then (case py_index (py_split_ws l) 2 of
              Inl _ \<Rightarrow> None
            | Inr v \<Rightarrow> Some (py_strip_chars [CHR 0x22] v))
      else None)"

definition arch_match :: "string \<Rightarrow> string \<Rightarrow> bool" where
  "arch_match board l \<longleftrightarrow> arch_line l \<and> arch_board l = Inr board"

text \<open>
  Test data: a text file made of lines, and two headers.  In \<open>demo_hdr\<close> every
  board section defines \<open>FIRMWARE_VERSION\<close>; in \<open>demo_leak_hdr\<close> the section of
  \<open>FOO\<close> does not.
\<close>

definition text_file :: "string list \<Rightarrow> bytes" where
  "text_file ls = concat (map (\<lambda>l. bytes_of (l @ [CHR 0x0A])) ls)"

definition demo_hdr :: "string list" where
  "demo_hdr =
     [''#if (ARCH & ARCH_FOO)'', '' #define VERS_MAJOR 1'', '' #define FIRMWARE_VERSION \"1.0\"'',
      ''#elif (ARCH & ARCH_BAR)'', '' #define FIRMWARE_VERSION \"2.0\"'', ''#endif'']"

definition demo_leak_hdr :: "string list" where
  "demo_leak_hdr =
     [''#if (ARCH & ARCH_FOO)'', '' #define VERS_MAJOR 1'',
      ''#elif (ARCH & ARCH_BAR)'', '' #define FIRMWARE_VERSION \"2.0\"'', ''#endif'',
      ''#define FIRMWARE_VERSION \"1.0\"'']"

definition hdr_fs :: "string list \<Rightarrow> fs" where
  "hdr_fs hdr = \<lparr>files = [''verstag.h'' \<mapsto> text_file hdr], dirs = {}, unreadable = {},
                  unwritable = {}\<rparr>"

definition fr_argv :: "string \<Rightarrow> string list" where
  "fr_argv board = [''findrev.py'', ''verstag.h'', board]"

text \<open>A line that, inside the board's section, neither prints nor raises: not a
  \<open>#define FIRMWARE_VERSION\<close> line, and a \<open>#define VERS_*\<close> line only with a value.\<close>

definition fr_quiet_line :: "string \<Rightarrow> bool" where
  "fr_quiet_line m \<longleftrightarrow> \<not> define_line ''FIRMWARE_VERSION'' m \<and>
     (py_startswith (py_strip m) ''#define VERS_'' \<longrightarrow> 2 < length (py_split_ws m))"

declare fr_init_def [py_eval] arch_if_def [py_eval] arch_elif_def [py_eval] arch_line_def [py_eval]
  arch_strip_def [py_eval] arch_board_def [py_eval] fr_select_def [py_eval]
  define_line_def [py_eval] fr_assign_def [py_eval] fr_version_def [py_eval]
  fr_defines_def [py_eval] fr_step_def [py_eval] arch_match_def [py_eval]
  fw_version_of_def [py_eval]

subsection \<open>Reading the header\<close>

lemma py_readlines_text_file:
  "\<forall>l\<in>set ls. CHR 0x0A \<notin> set l \<Longrightarrow>
   map chars_of (py_readlines (text_file ls)) = map (\<lambda>l. l @ [CHR 0x0A]) ls"
proof (induction ls)
  case Nil
  then show ?case by (simp add: text_file_def)
next
  case (Cons l ls)
  have nl: "byte_of_char (CHR 0x0A) = 10" by (simp add: byte_of_char_def)
  then have b: "bytes_of (l @ [CHR 0x0A]) = bytes_of l @ [10]"
    by (simp add: bytes_of_def)
  have "10 \<notin> set (bytes_of l)"
    using Cons.prems byte_of_char_inj nl by (auto simp: bytes_of_def inj_eq)
  then have "py_readlines (text_file (l # ls)) = (bytes_of l @ [10]) # py_readlines (text_file ls)"
    using b py_readlines_append_line [of "bytes_of l"] by (simp add: text_file_def)
  moreover have "chars_of (bytes_of l @ [10]) = l @ [CHR 0x0A]"
    by (metis b chars_of_bytes_of)
  ultimately show ?case
    using Cons by simp
qed

lemma hdr_fs_lines:
  "\<forall>l\<in>set hdr. CHR 0x0A \<notin> set l \<Longrightarrow>
   open_read (hdr_fs hdr) ''verstag.h'' = Inr (text_file hdr)
   \<and> map chars_of (py_readlines (text_file hdr)) = map (\<lambda>l. l @ [CHR 0x0A]) hdr"
  by (simp add: open_read_def hdr_fs_def py_readlines_text_file)

subsection \<open>One iteration of the loop\<close>

lemma board_found_update_id [simp]: "(st\<lparr>board_found := b\<rparr> = st) \<longleftrightarrow> board_found st = b"
  by (cases st) auto

lemma fr_assign_frame:
  assumes "\<And>f s. stdout (upd f s) = stdout s" "\<And>f s. board_found (upd f s) = board_found s"
    and "fr_assign name upd l st = Inr st'"
  shows "stdout st' = stdout st \<and> board_found st' = board_found st"
  using assms by (auto simp: fr_assign_def exc_bind_eq_Inr split: if_splits)

lemma fr_version_cases:
  "fr_version l st = Inr st' \<Longrightarrow>
   st' = st \<or> (\<exists>v. fw_version_of l = Some v \<and> stdout st' = stdout st @ [v] \<and> \<not> board_found st')"
  by (auto simp: fr_version_def fw_version_of_def exc_bind_eq_Inr Let_def split: if_splits)

lemma fr_defines_cases:
  assumes "fr_defines l st = Inr st'"
  shows "(stdout st' = stdout st \<and> board_found st' = board_found st)
         \<or> (\<exists>v. fw_version_of l = Some v \<and> stdout st' = stdout st @ [v] \<and> \<not> board_found st')"
proof -
  obtain s1 s2 s3 s4 where
    1: "fr_assign ''VERS_MAJOR'' major_update l st = Inr s1" and
    2: "fr_assign ''VERS_MINOR'' minor_update l s1 = Inr s2" and
    3: "fr_assign ''VERS_REV'' rev'_update l s2 = Inr s3" and
    4: "fr_assign ''VERS_RC'' rc_update l s3 = Inr s4" and
    5: "fr_version l s4 = Inr st'"
    using assms by (auto simp: fr_defines_def exc_bind_eq_Inr)
  have "stdout s4 = stdout st \<and> board_found s4 = board_found st"
    using fr_assign_frame [OF _ _ 1] fr_assign_frame [OF _ _ 2] fr_assign_frame [OF _ _ 3]
      fr_assign_frame [OF _ _ 4] by simp
  then show ?thesis
    using fr_version_cases [OF 5] by auto
qed

lemma fr_select_cases:
  "fr_select board l st = Inr st' \<Longrightarrow>
   stdout st' = stdout st \<and> (board_found st' \<longleftrightarrow> board_found st \<or> arch_match board l)"
  by (auto simp: fr_select_def arch_match_def exc_bind_eq_Inr split: if_splits)

lemma fr_step_cases:
  assumes "fr_step board st l = Inr st'"
  shows "(stdout st' = stdout st \<and> (board_found st' \<longrightarrow> board_found st \<or> arch_match board l))
         \<or> (\<exists>v. fw_version_of l = Some v \<and> stdout st' = stdout st @ [v] \<and> \<not> board_found st'
               \<and> (board_found st \<or> arch_match board l))"
proof -
  obtain s1 where s1: "fr_select board l st = Inr s1"
    and st': "(if board_found s1 then fr_defines l s1 else Inr s1) = Inr st'"
    using assms by (auto simp: fr_step_def exc_bind_eq_Inr)
  show ?thesis
  proof (cases "board_found s1")
    case True
    then show ?thesis
      using st' fr_select_cases [OF s1] fr_defines_cases [of l s1 st'] by auto
  next
    case False
    then show ?thesis
      using st' fr_select_cases [OF s1] by auto
  qed
qed

lemma arch_board_Inr: "arch_line l \<Longrightarrow> \<exists>b. arch_board l = Inr b"
proof -
  assume "arch_line l"
  then have "CHR ''_'' \<in> set (take (length arch_if) l) \<or> CHR ''_'' \<in> set (take (length arch_elif) l)"
    by (auto simp: arch_line_def py_startswith_def arch_if_def arch_elif_def)
  then have "CHR ''_'' \<in> set l"
    by (auto dest: in_set_takeD)
  then show ?thesis
    by (auto simp: arch_board_def py_split1_None split: option.split)
qed

lemma arch_match_lower: "arch_match board l \<Longrightarrow> py_lower board = board"
  by (auto simp: arch_match_def arch_board_def split: option.splits)

lemma fr_step_idle:
  "\<not> board_found st \<Longrightarrow> \<not> arch_match board l \<Longrightarrow> fr_step board st l = Inr st"
  using arch_board_Inr [of l] by (auto simp: fr_step_def fr_select_def arch_match_def)

lemma define_line_prefix:
  "define_line a l \<Longrightarrow> define_line b l \<Longrightarrow> length a \<le> length b \<Longrightarrow>
   py_startswith (''#define '' @ b) (''#define '' @ a)"
  unfolding define_line_def by (rule py_startswith_prefix) simp_all

lemma define_line_exclusive:
  assumes "define_line ''FIRMWARE_VERSION'' l"
  shows "\<not> define_line ''VERS_MAJOR'' l \<and> \<not> define_line ''VERS_MINOR'' l
         \<and> \<not> define_line ''VERS_REV'' l \<and> \<not> define_line ''VERS_RC'' l"
  using define_line_prefix [OF _ assms, of "''VERS_MAJOR''"]
    define_line_prefix [OF _ assms, of "''VERS_MINOR''"]
    define_line_prefix [OF _ assms, of "''VERS_REV''"]
    define_line_prefix [OF _ assms, of "''VERS_RC''"]
  by (auto simp: py_startswith_def)

subsection \<open>The loop\<close>

lemma fr_loop_stdout:
  "\<exists>new. stdout (fst (fr_loop board st ls)) = stdout st @ new
     \<and> set new \<subseteq> {v. \<exists>l\<in>set ls. fw_version_of l = Some v}
     \<and> length new \<le> of_bool (board_found st) + length (filter (arch_match board) ls)"
proof (induction board st ls rule: fr_loop.induct)
  case (1 board st)
  then show ?case by simp
next
  case (2 board st l ls)
  show ?case
  proof (cases "fr_step board st l")
    case (Inl e)
    then show ?thesis by simp
  next
    case (Inr st')
    then obtain new where
      new: "stdout (fst (fr_loop board st' ls)) = stdout st' @ new"
           "set new \<subseteq> {v. \<exists>l\<in>set ls. fw_version_of l = Some v}"
           "length new \<le> of_bool (board_found st') + length (filter (arch_match board) ls)"
      using "2.IH" by blast
    from fr_step_cases [OF Inr] show ?thesis
    proof
      assume "stdout st' = stdout st \<and> (board_found st' \<longrightarrow> board_found st \<or> arch_match board l)"
      then show ?thesis
        using new Inr by (auto simp: of_bool_def split: if_splits intro!: exI [of _ new])
    next
      assume "\<exists>v. fw_version_of l = Some v \<and> stdout st' = stdout st @ [v] \<and> \<not> board_found st'
               \<and> (board_found st \<or> arch_match board l)"
      then obtain v where "fw_version_of l = Some v" "stdout st' = stdout st @ [v]"
        "\<not> board_found st'" "board_found st \<or> arch_match board l"
        by blast
      then show ?thesis
        using new Inr by (auto simp: of_bool_def split: if_splits intro!: exI [of _ "v # new"])
    qed
  qed
qed

lemma fr_loop_idle:
  "\<not> board_found st \<Longrightarrow> \<forall>l\<in>set ls. \<not> arch_match board l \<Longrightarrow> fr_loop board st ls = (st, None)"
  by (induction ls) (simp_all add: fr_step_idle)

lemma py_startswith_trans:
  "py_startswith s q \<Longrightarrow> py_startswith q p \<Longrightarrow> py_startswith s p"
  unfolding py_startswith_def by (metis min.absorb1 take_take length_take min.cobounded2 min.absorb2 nat_le_linear)

lemma arch_line_not_define:
  assumes "arch_line l"
  shows "\<not> define_line name l"
proof
  assume d: "define_line name l"
  have "py_startswith arch_if ''#i''" "py_startswith arch_elif ''#e''"
    by (simp_all add: arch_if_def arch_elif_def py_startswith_def)
  then have "py_startswith l ''#i'' \<or> py_startswith l ''#e''"
    using assms py_startswith_trans unfolding arch_line_def by blast
  then obtain c r where l: "l = CHR ''#'' # c # r" and c: "c = CHR ''i'' \<or> c = CHR ''e''"
    by (cases l; cases "tl l") (auto simp: py_startswith_def)
  have ls: "py_lstrip py_whitespace l = l"
    by (simp add: l py_lstrip_def py_whitespace_def)
  obtain t where t: "l = py_strip l @ t"
    using py_rstrip_prefix [of l py_whitespace] ls by (auto simp: py_strip_def py_strip_chars_def)
  have "py_startswith (''#define '' @ name) ''#d''"
    by (simp add: py_startswith_def)
  then have "py_startswith (py_strip l) ''#d''"
    using d py_startswith_trans unfolding define_line_def by blast
  then obtain r' where "py_strip l = CHR ''#'' # CHR ''d'' # r'"
    by (cases "py_strip l"; cases "tl (py_strip l)") (auto simp: py_startswith_def)
  then show False
    using t l c by simp
qed


lemma arch_line_quiet: "arch_line l \<Longrightarrow> fr_quiet_line l"
  using arch_line_not_define [of l "''FIRMWARE_VERSION''"] arch_line_not_define [of l "''VERS_''"]
  by (simp add: fr_quiet_line_def define_line_def)

lemma fr_assign_quiet:
  assumes "fr_quiet_line m" and "py_startswith (''#define '' @ name) ''#define VERS_''"
  shows "\<exists>st'. fr_assign name upd m st = Inr st'"
proof (cases "define_line name m")
  case True
  then have "py_startswith (py_strip m) ''#define VERS_''"
    using assms(2) py_startswith_trans unfolding define_line_def by blast
  then have "2 < length (py_split_ws m)"
    using assms(1) by (simp add: fr_quiet_line_def)
  then show ?thesis by (simp add: fr_assign_def py_index_def)
qed (simp add: fr_assign_def)

lemma fr_defines_quiet:
  assumes "fr_quiet_line m"
  shows "\<exists>st'. fr_defines m st = Inr st' \<and> board_found st' = board_found st \<and> stdout st' = stdout st"
proof -
  have v: "py_startswith (''#define '' @ n) ''#define VERS_''" if "n \<in> {''VERS_MAJOR'', ''VERS_MINOR'', ''VERS_REV'', ''VERS_RC''}" for n
    using that by (auto simp: py_startswith_def)
  obtain s1 where 1: "fr_assign ''VERS_MAJOR'' major_update m st = Inr s1"
    using fr_assign_quiet [OF assms v] by blast
  obtain s2 where 2: "fr_assign ''VERS_MINOR'' minor_update m s1 = Inr s2"
    using fr_assign_quiet [OF assms v] by blast
  obtain s3 where 3: "fr_assign ''VERS_REV'' rev'_update m s2 = Inr s3"
    using fr_assign_quiet [OF assms v] by blast
  obtain s4 where 4: "fr_assign ''VERS_RC'' rc_update m s3 = Inr s4"
    using fr_assign_quiet [OF assms v] by blast
  have "fr_version m s4 = Inr s4"
    using assms by (simp add: fr_quiet_line_def fr_version_def)
  moreover have "stdout s4 = stdout st \<and> board_found s4 = board_found st"
    using fr_assign_frame [OF _ _ 1] fr_assign_frame [OF _ _ 2] fr_assign_frame [OF _ _ 3]
      fr_assign_frame [OF _ _ 4] by simp
  ultimately show ?thesis
    using 1 2 3 4 by (auto simp: fr_defines_def)
qed

lemma fr_select_found:
  assumes "board_found st \<or> arch_match board l"
  shows "\<exists>st'. fr_select board l st = Inr st' \<and> board_found st' \<and> stdout st' = stdout st"
proof -
  obtain st' where "fr_select board l st = Inr st'"
    using arch_board_Inr [of l] by (cases "arch_line l") (auto simp: fr_select_def)
  then show ?thesis
    using fr_select_cases [of board l st st'] assms by auto
qed

lemma fr_step_quiet:
  assumes "board_found st \<or> arch_match board m" and "fr_quiet_line m"
  shows "\<exists>st'. fr_step board st m = Inr st' \<and> board_found st' \<and> stdout st' = stdout st"
proof -
  obtain s1 where s1: "fr_select board m st = Inr s1" "board_found s1" "stdout s1 = stdout st"
    using fr_select_found [OF assms(1)] by blast
  obtain s2 where "fr_defines m s1 = Inr s2" "board_found s2 = board_found s1" "stdout s2 = stdout s1"
    using fr_defines_quiet [OF assms(2)] by blast
  then show ?thesis
    using s1 by (simp add: fr_step_def)
qed

lemma fr_step_version:
  assumes "board_found st \<or> arch_match board l" and "fw_version_of l = Some v"
  shows "\<exists>st'. fr_step board st l = Inr st' \<and> \<not> board_found st' \<and> stdout st' = stdout st @ [v]"
proof -
  obtain s1 where s1: "fr_select board l st = Inr s1" "board_found s1" "stdout s1 = stdout st"
    using fr_select_found [OF assms(1)] by blast
  have d: "define_line ''FIRMWARE_VERSION'' l" and i: "2 < length (py_split_ws l)"
    and v: "v = py_strip_chars [CHR 0x22] (py_split_ws l ! 2)"
    using assms(2) by (auto simp: fw_version_of_def py_index_def split: if_splits)
  have "fr_defines l s1 = fr_version l s1"
    using define_line_exclusive [OF d] by (simp add: fr_defines_def fr_assign_def)
  then show ?thesis
    using s1 d i v by (simp add: fr_step_def fr_version_def py_index_def Let_def)
qed

lemma fr_loop_quiet:
  assumes "board_found st" and "\<forall>m\<in>set ms. fr_quiet_line m"
  shows "\<exists>st'. fr_loop board st (ms @ ys) = fr_loop board st' ys \<and> board_found st' \<and> stdout st' = stdout st"
  using assms
proof (induction ms arbitrary: st)
  case Nil
  then show ?case by auto
next
  case (Cons m ms)
  obtain s1 where "fr_step board st m = Inr s1" "board_found s1" "stdout s1 = stdout st"
    using fr_step_quiet [of st board m] Cons.prems by auto
  then show ?case
    using Cons.IH [of s1] Cons.prems by auto
qed

lemma fr_loop_idle_prefix:
  "\<not> board_found st \<Longrightarrow> \<forall>p\<in>set pre. \<not> arch_match board p \<Longrightarrow>
   fr_loop board st (pre @ ys) = fr_loop board st ys"
  by (induction pre) (simp_all add: fr_step_idle)

lemma fr_loop_section:
  assumes "arch_match board l" and "\<forall>m\<in>set ms. fr_quiet_line m" and "fw_version_of vl = Some v"
  shows "\<exists>st'. fr_loop board st (l # ms @ vl # rest) = fr_loop board st' rest
           \<and> stdout st' = stdout st @ [v] \<and> \<not> board_found st'"
proof -
  have l: "arch_line l" using assms(1) by (simp add: arch_match_def)
  obtain s1 where s1: "fr_step board st l = Inr s1" "board_found s1" "stdout s1 = stdout st"
    using fr_step_quiet [OF _ arch_line_quiet [OF l]] assms(1) by blast
  obtain s2 where s2: "fr_loop board s1 (ms @ vl # rest) = fr_loop board s2 (vl # rest)"
    "board_found s2" "stdout s2 = stdout s1"
    using fr_loop_quiet [OF s1(2) assms(2)] by blast
  obtain s3 where "fr_step board s2 vl = Inr s3" "\<not> board_found s3" "stdout s3 = stdout s2 @ [v]"
    using fr_step_version [OF _ assms(3)] s2(2) by blast
  then show ?thesis
    using s1 s2 by auto
qed

lemma findrev_opened:
  assumes "2 < length argv" and "open_read s (argv ! 1) = Inr data"
  shows "findrev argv s =
           (let (st, r) = fr_loop (argv ! 2) fr_init (map chars_of (py_readlines data))
            in (stdout st, case r of None \<Rightarrow> Exited 0 | Some e \<Rightarrow> Uncaught e))"
  using assms by (simp add: findrev_def)

lemma findrev_stdout:
  "\<exists>data. fst (findrev argv s) = [] \<or>
     2 < length argv \<and> open_read s (argv ! 1) = Inr data
     \<and> set (fst (findrev argv s)) \<subseteq> {v. \<exists>l\<in>set (map chars_of (py_readlines data)). fw_version_of l = Some v}
     \<and> length (fst (findrev argv s)) \<le> length (filter (arch_match (argv ! 2)) (map chars_of (py_readlines data)))"
proof (cases "2 < length argv")
  case True
  show ?thesis
  proof (cases "open_read s (argv ! 1)")
    case (Inl e)
    then show ?thesis using True by (simp add: findrev_def)
  next
    case (Inr data)
    obtain new where "stdout (fst (fr_loop (argv ! 2) fr_init (map chars_of (py_readlines data)))) = new"
      "set new \<subseteq> {v. \<exists>l\<in>set (map chars_of (py_readlines data)). fw_version_of l = Some v}"
      "length new \<le> length (filter (arch_match (argv ! 2)) (map chars_of (py_readlines data)))"
      using fr_loop_stdout [of "argv ! 2" fr_init "map chars_of (py_readlines data)"]
      by (auto simp: fr_init_def)
    then show ?thesis
      using True Inr by (auto simp: findrev_opened split: prod.split)
  qed
qed (auto simp: findrev_def)

lemma fw_version_of_shape:
  assumes "fw_version_of l = Some v"
  shows "set v \<inter> set py_whitespace = {} \<and> (v \<noteq> [] \<longrightarrow> hd v \<noteq> CHR 0x22 \<and> last v \<noteq> CHR 0x22)"
proof -
  have "2 < length (py_split_ws l)" and v: "v = py_strip_chars [CHR 0x22] (py_split_ws l ! 2)"
    using assms by (auto simp: fw_version_of_def py_index_def split: if_splits)
  then have w: "py_split_ws l ! 2 \<in> set (py_split_ws l)"
    by simp
  have "set v \<inter> set py_whitespace = {}"
    using py_split_ws_fields [OF w] set_py_strip_chars [of "[CHR 0x22]"] v by blast
  moreover have "v \<noteq> [] \<longrightarrow> hd v \<noteq> CHR 0x22 \<and> last v \<noteq> CHR 0x22"
    using py_strip_chars_hd py_strip_chars_last v by fastforce
  ultimately show ?thesis by blast
qed

lemma hdr_run:
  "\<forall>l\<in>set hdr. CHR 0x0A \<notin> set l \<Longrightarrow>
   findrev (fr_argv board) (hdr_fs hdr) =
     (let (st, r) = fr_loop board fr_init (map (\<lambda>l. l @ [CHR 0x0A]) hdr)
      in (stdout st, case r of None \<Rightarrow> Exited 0 | Some e \<Rightarrow> Uncaught e))"
  using findrev_opened [of "fr_argv board" "hdr_fs hdr"] hdr_fs_lines [of hdr]
  by (simp add: fr_argv_def)

lemmas fr_run_eval = hdr_run py_eval char_of_def bit_0 py_split_ws.simps Let_def

subsection \<open>Properties of the utility\<close>

text \<open>
  C17.  Every line the utility prints is the value of a \<open>#define FIRMWARE_VERSION\<close>
  line of the header it read (its third whitespace-separated field with the quotes
  stripped): it holds no whitespace and neither begins nor ends with a quote.
\<close>

theorem findrev_stdout_versions:
  assumes "v \<in> set (fst (findrev argv s))"
  shows "\<exists>data. open_read s (argv ! 1) = Inr data
           \<and> (\<exists>l\<in>set (map chars_of (py_readlines data)). fw_version_of l = Some v)
           \<and> set v \<inter> set py_whitespace = {} \<and> (v \<noteq> [] \<longrightarrow> hd v \<noteq> CHR 0x22 \<and> last v \<noteq> CHR 0x22)"
proof -
  obtain data where "open_read s (argv ! 1) = Inr data"
    and "\<exists>l\<in>set (map chars_of (py_readlines data)). fw_version_of l = Some v"
    using findrev_stdout [of argv s] assms by fastforce
  then show ?thesis
    using fw_version_of_shape by blast
qed

theorem findrev_stdout_versions_witness:
  "''1.0'' \<in> set (fst (findrev (fr_argv ''foo'') (hdr_fs demo_hdr)))
   \<and> (\<exists>l\<in>set (map chars_of (py_readlines (text_file demo_hdr))). fw_version_of l = Some ''1.0'')"
proof -
  have run: "findrev (fr_argv ''foo'') (hdr_fs demo_hdr) = ([''1.0''], Exited 0)"
    by (simp add: demo_hdr_def fr_run_eval)
  have "open_read (hdr_fs demo_hdr) (fr_argv ''foo'' ! 1) = Inr (text_file demo_hdr)"
    by (simp add: hdr_fs_def open_read_def fr_argv_def)
  then show ?thesis
    using findrev_stdout_versions [of "''1.0''" "fr_argv ''foo''" "hdr_fs demo_hdr"] run by simp
qed

text \<open>
  C18.  The utility prints at most one line per \<open>#if\<close>/\<open>#elif (ARCH & ARCH_X)\<close> line
  naming the requested board: printing clears \<open>board_found\<close>, and only such a
  line sets it.
\<close>

theorem findrev_print_count:
  assumes "2 < length argv" and "open_read s (argv ! 1) = Inr data"
  shows "length (fst (findrev argv s)) \<le> length (filter (arch_match (argv ! 2)) (map chars_of (py_readlines data)))"
  using findrev_stdout [of argv s] assms by auto

theorem findrev_print_count_witness:
  "length (fst (findrev (fr_argv ''foo'') (hdr_fs demo_hdr)))
     \<le> length (filter (arch_match ''foo'') (map chars_of (py_readlines (text_file demo_hdr))))"
proof -
  have h: "2 < length (fr_argv ''foo'')"
    "open_read (hdr_fs demo_hdr) (fr_argv ''foo'' ! 1) = Inr (text_file demo_hdr)"
    by (simp_all add: fr_argv_def hdr_fs_def open_read_def)
  show ?thesis
    using findrev_print_count [OF h] by (simp add: fr_argv_def)
qed

text \<open>
  C19.  When no architecture line of the header names the board, the utility prints
  nothing and exits with status 0, where the spec promises a version line.
\<close>

theorem findrev_no_board:
  assumes "2 < length argv" and "open_read s (argv ! 1) = Inr data"
    and "\<forall>l\<in>set (map chars_of (py_readlines data)). \<not> arch_match (argv ! 2) l"
  shows "findrev argv s = ([], Exited 0)"
proof -
  have "fr_loop (argv ! 2) fr_init (map chars_of (py_readlines data)) = (fr_init, None)"
    by (rule fr_loop_idle) (use assms(3) in \<open>simp_all add: fr_init_def\<close>)
  then show ?thesis
    using findrev_opened [OF assms(1,2)] by (simp add: fr_init_def)
qed

theorem findrev_no_board_witness:
  "findrev (fr_argv ''baz'') (hdr_fs demo_hdr) = ([], Exited 0)"
proof -
  have h: "2 < length (fr_argv ''baz'')"
    "open_read (hdr_fs demo_hdr) (fr_argv ''baz'' ! 1) = Inr (text_file demo_hdr)"
    by (simp_all add: fr_argv_def hdr_fs_def open_read_def)
  have "\<forall>l\<in>set (map chars_of (py_readlines (text_file demo_hdr))). \<not> arch_match (fr_argv ''baz'' ! 2) l"
    by (simp add: py_readlines_text_file demo_hdr_def fr_argv_def py_eval char_of_def bit_0)
  then show ?thesis
    using findrev_no_board [OF h] by blast
qed

text \<open>
  C20.  The board name read from a header is lower-cased (line 13) but the argument
  is not: a board argument with an upper-case letter never matches, and nothing
  is printed.
\<close>

theorem findrev_uppercase_board:
  assumes "py_lower (argv ! 2) \<noteq> argv ! 2"
  shows "fst (findrev argv s) = []"
proof -
  have "filter (arch_match (argv ! 2)) ls = []" for ls
    using arch_match_lower assms by (auto simp: filter_empty_conv)
  then show ?thesis
    using findrev_stdout [of argv s] by auto
qed

theorem findrev_uppercase_board_witness:
  "fst (findrev (fr_argv ''FOO'') (hdr_fs demo_hdr)) = []"
proof -
  have "py_lower (fr_argv ''FOO'' ! 2) \<noteq> fr_argv ''FOO'' ! 2"
    by (simp add: fr_argv_def py_eval char_of_def bit_0)
  then show ?thesis
    by (rule findrev_uppercase_board)
qed

text \<open>
  C21.  The optional \<open>official\<close> argument (lines 7-9) has no effect: the output and
  exit status are those of the run without the arguments after the board.
\<close>

theorem findrev_official_ignored:
  assumes "2 < length argv"
  shows "findrev argv s = findrev (take 3 argv) s"
  using assms unfolding findrev_def Let_def by (simp split: sum.split)

theorem findrev_official_ignored_witness:
  "findrev (fr_argv ''foo'' @ [''official'']) (hdr_fs demo_hdr) = findrev (fr_argv ''foo'') (hdr_fs demo_hdr)"
proof -
  have "2 < length (fr_argv ''foo'' @ [''official''])"
    by (simp add: fr_argv_def)
  from findrev_official_ignored [OF this] show ?thesis
    by (simp add: fr_argv_def)
qed

text \<open>
  C22.  No architecture line clears \<open>board_found\<close> (lines 12-15): an \<open>#elif\<close> for
  another board leaves the flag of the previous section set.
\<close>

theorem fr_select_keeps_flag:
  assumes "board_found st" and "fr_select board l st = Inr st'"
  shows "board_found st'"
  using fr_select_cases [OF assms(2)] assms(1) by simp

theorem fr_select_keeps_flag_witness:
  "fr_select ''foo'' ''#elif (ARCH & ARCH_BAR)'' (fr_init\<lparr>board_found := True\<rparr>)
     = Inr (fr_init\<lparr>board_found := True\<rparr>)
   \<and> board_found (fr_init\<lparr>board_found := True\<rparr>)"
proof -
  have h: "board_found (fr_init\<lparr>board_found := True\<rparr>)"
    "fr_select ''foo'' ''#elif (ARCH & ARCH_BAR)'' (fr_init\<lparr>board_found := True\<rparr>)
       = Inr (fr_init\<lparr>board_found := True\<rparr>)"
    by (simp_all add: py_eval char_of_def bit_0)
  show ?thesis
    using fr_select_keeps_flag [OF h] h(2) by blast
qed

text \<open>
  C23.  The consequence of C22 for a whole run: when the requested board's section
  has no \<open>FIRMWARE_VERSION\<close> line before the next \<open>#elif (ARCH & ARCH_C)\<close> of
  another board \<open>C\<close>, the first line the utility prints is the version defined in
  \<open>C\<close>'s section, for every header of that shape.
\<close>

theorem findrev_elif_leak:
  assumes "2 < length argv" and "open_read s (argv ! 1) = Inr data"
    and "map chars_of (py_readlines data) = pre @ l # ms @ l' # ms' @ vl # rest"
    and "\<forall>p\<in>set pre. \<not> arch_match (argv ! 2) p"
    and "arch_match (argv ! 2) l" and "\<forall>m\<in>set ms. fr_quiet_line m"
    and "arch_match c l'" and "c \<noteq> argv ! 2"
    and "\<forall>m\<in>set ms'. fr_quiet_line m" and "fw_version_of vl = Some v"
  shows "fst (findrev argv s) \<noteq> [] \<and> hd (fst (findrev argv s)) = v"
proof -
  have q: "\<forall>m\<in>set (ms @ l' # ms'). fr_quiet_line m"
    using assms(6,7,9) arch_line_quiet by (auto simp: arch_match_def)
  have "fr_loop (argv ! 2) fr_init (map chars_of (py_readlines data))
          = fr_loop (argv ! 2) fr_init (l # (ms @ l' # ms') @ vl # rest)"
    using assms(3,4) fr_loop_idle_prefix [of fr_init "pre" "argv ! 2"] by (simp add: fr_init_def)
  moreover obtain st' where "fr_loop (argv ! 2) fr_init (l # (ms @ l' # ms') @ vl # rest) = fr_loop (argv ! 2) st' rest"
    and o: "stdout st' = [v]"
    using fr_loop_section [OF assms(5) q assms(10), of fr_init rest] by (auto simp: fr_init_def)
  moreover obtain new where "stdout (fst (fr_loop (argv ! 2) st' rest)) = stdout st' @ new"
    using fr_loop_stdout by blast
  ultimately show ?thesis
    using findrev_opened [OF assms(1,2)] o by (auto split: prod.split)
qed

theorem findrev_elif_leak_witness:
  "hd (fst (findrev (fr_argv ''foo'') (hdr_fs demo_leak_hdr))) = ''2.0''"
proof -
  let ?nl = "\<lambda>l. l @ [CHR 0x0A]"
  have nl: "\<forall>l\<in>set demo_leak_hdr. CHR 0x0A \<notin> set l"
    by (simp add: demo_leak_hdr_def)
  have h: "2 < length (fr_argv ''foo'')"
    "open_read (hdr_fs demo_leak_hdr) (fr_argv ''foo'' ! 1) = Inr (text_file demo_leak_hdr)"
    by (simp_all add: fr_argv_def hdr_fs_def open_read_def)
  have lines: "map chars_of (py_readlines (text_file demo_leak_hdr)) =
      [] @ ?nl ''#if (ARCH & ARCH_FOO)'' # [?nl '' #define VERS_MAJOR 1''] @
      ?nl ''#elif (ARCH & ARCH_BAR)'' # [] @ ?nl '' #define FIRMWARE_VERSION \"2.0\"'' #
      [?nl ''#endif'', ?nl ''#define FIRMWARE_VERSION \"1.0\"'']"
    using hdr_fs_lines [OF nl] by (simp add: demo_leak_hdr_def)
  have c: "\<forall>p\<in>set []. \<not> arch_match (fr_argv ''foo'' ! 2) p"
    "arch_match (fr_argv ''foo'' ! 2) (?nl ''#if (ARCH & ARCH_FOO)'')"
    "\<forall>m\<in>set [?nl '' #define VERS_MAJOR 1'']. fr_quiet_line m"
    "arch_match ''bar'' (?nl ''#elif (ARCH & ARCH_BAR)'')" "''bar'' \<noteq> fr_argv ''foo'' ! 2"
    "\<forall>m\<in>set []. fr_quiet_line m"
    "fw_version_of (?nl '' #define FIRMWARE_VERSION \"2.0\"'') = Some ''2.0''"
    by (simp_all add: fr_argv_def fr_quiet_line_def py_eval char_of_def bit_0 py_split_ws.simps)
  show ?thesis
    using findrev_elif_leak [OF h lines c] by simp
qed

text \<open>
  C24.  While the board's section is active, a \<open>#define FIRMWARE_VERSION\<close> line with
  fewer than three fields raises \<open>IndexError\<close> at \<open>l.split()[2]\<close> (line 27).
\<close>

theorem fr_step_version_missing:
  assumes "board_found st" and "\<not> arch_line l" and "define_line ''FIRMWARE_VERSION'' l"
    and "length (py_split_ws l) < 3"
  shows "fr_step board st l = Inl IndexError"
  using assms define_line_exclusive [OF assms(3)]
  by (simp add: fr_step_def fr_select_def fr_defines_def fr_assign_def fr_version_def py_index_def)

theorem fr_step_version_missing_witness:
  "fr_step ''foo'' (fr_init\<lparr>board_found := True\<rparr>) ''#define FIRMWARE_VERSION'' = Inl IndexError"
proof -
  have h: "board_found (fr_init\<lparr>board_found := True\<rparr>)" "\<not> arch_line ''#define FIRMWARE_VERSION''"
    "define_line ''FIRMWARE_VERSION'' ''#define FIRMWARE_VERSION''"
    "length (py_split_ws ''#define FIRMWARE_VERSION'') < 3"
    by (simp_all add: py_eval py_split_ws.simps)
  show ?thesis
    by (rule fr_step_version_missing [OF h])
qed

text \<open>
  C25.  The line of a section that prints: after an architecture line naming the
  board, the loop runs through lines that neither print nor raise (any other line,
  including the architecture lines of other boards) and prints the value of the
  first \<open>#define FIRMWARE_VERSION\<close> line, then clears the flag, whatever the state
  and the lines that follow.
\<close>

theorem fr_section_prints:
  assumes "arch_match board l" and "\<forall>m\<in>set ms. fr_quiet_line m" and "fw_version_of vl = Some v"
  shows "\<exists>st'. fr_loop board st (l # ms @ vl # rest) = fr_loop board st' rest
           \<and> stdout st' = stdout st @ [v] \<and> \<not> board_found st'"
  using fr_loop_section [OF assms] .

theorem fr_section_prints_witness:
  "\<exists>st'. fr_loop ''foo'' fr_init
       (''#if (ARCH & ARCH_FOO)'' # [''#define VERS_MAJOR 1'', ''#elif (ARCH & ARCH_BAR)''] @
        '' #define FIRMWARE_VERSION \"1.0\"'' # [''#endif''])
       = fr_loop ''foo'' st' [''#endif''] \<and> stdout st' = [''1.0''] \<and> \<not> board_found st'"
proof -
  have h: "arch_match ''foo'' ''#if (ARCH & ARCH_FOO)''"
    "\<forall>m\<in>set [''#define VERS_MAJOR 1'', ''#elif (ARCH & ARCH_BAR)'']. fr_quiet_line m"
    "fw_version_of '' #define FIRMWARE_VERSION \"1.0\"'' = Some ''1.0''"
    by (simp_all add: fr_quiet_line_def py_eval char_of_def bit_0 py_split_ws.simps)
  show ?thesis
    using fr_section_prints [OF h, of fr_init "[''#endif'']"] by (simp add: fr_init_def)
qed

end
