(* ===== verification/Utf8.thy ===== *)
theory Utf8
  imports Prelude
begin

text \<open>
  Reading a file in text mode in Python 3, as \<open>cpcfg.py\<close> does at line 15
  (\<open>open(f, "r").read().encode()\<close>): the bytes are decoded as UTF-8, raising
  \<open>UnicodeDecodeError\<close> on an ill-formed sequence; universal newlines turn
  \<open>"\r\n"\<close> and a lone \<open>"\r"\<close> into \<open>"\n"\<close>; \<open>encode()\<close> turns the text back into
  UTF-8.  The decoder follows the well-formed byte sequences of the Unicode
  standard (table 3-7), which CPython's decoder accepts exactly; code points are
  natural numbers.  The lemmas prove that encoding inverts decoding, so that the
  whole read is the byte-level newline translation \<open>bytes_nl\<close> on a well-formed
  file.
\<close>

definition utf8_cont :: "byte \<Rightarrow> bool" where
  "utf8_cont c \<longleftrightarrow> 0x80 \<le> c \<and> c \<le> 0xBF"

definition cont_val :: "byte \<Rightarrow> nat" where
  "cont_val c = unat c - 0x80"

fun utf8_decode :: "bytes \<Rightarrow> nat list option" where
  "utf8_decode [] = Some []"
| "utf8_decode (b # bs) =
     (if b < 0x80 then map_option (Cons (unat b)) (utf8_decode bs)
      else if b < 0xC2 then None
      else if b < 0xE0 then
        (case bs of
           c1 # r \<Rightarrow>
             if utf8_cont c1
             then map_option (Cons ((unat b - 0xC0) * 64 + cont_val c1)) (utf8_decode r)
             else None
         | _ \<Rightarrow> None)
      else if b < 0xF0 then
        (case bs of
           c1 # c2 # r \<Rightarrow>
             if (if b = 0xE0 then 0xA0 \<le> c1 \<and> c1 \<le> 0xBF
                 else if b = 0xED then 0x80 \<le> c1 \<and> c1 \<le> 0x9F else utf8_cont c1)
                \<and> utf8_cont c2
             then map_option (Cons (((unat b - 0xE0) * 64 + cont_val c1) * 64 + cont_val c2))
                    (utf8_decode r)
             else None
         | _ \<Rightarrow> None)
      else if b < 0xF5 then
        (case bs of
           c1 # c2 # c3 # r \<Rightarrow>
             if (if b = 0xF0 then 0x90 \<le> c1 \<and> c1 \<le> 0xBF
                 else if b = 0xF4 then 0x80 \<le> c1 \<and> c1 \<le> 0x8F else utf8_cont c1)
                \<and> utf8_cont c2 \<and> utf8_cont c3
             then map_option
                    (Cons ((((unat b - 0xF0) * 64 + cont_val c1) * 64 + cont_val c2) * 64
                           + cont_val c3))
                    (utf8_decode r)
             else None
         | _ \<Rightarrow> None)
      else None)"

definition utf8_encode_char :: "nat \<Rightarrow> bytes" where
  "utf8_encode_char c =
     (if c < 0x80 then [of_nat c]
      else if c < 0x800 then [of_nat (0xC0 + c div 64), of_nat (0x80 + c mod 64)]
      else if c < 0x10000 then
        [of_nat (0xE0 + c div 64 div 64), of_nat (0x80 + c div 64 mod 64), of_nat (0x80 + c mod 64)]
      else
        [of_nat (0xF0 + c div 64 div 64 div 64), of_nat (0x80 + c div 64 div 64 mod 64),
         of_nat (0x80 + c div 64 mod 64), of_nat (0x80 + c mod 64)])"

definition utf8_encode :: "nat list \<Rightarrow> bytes" where
  "utf8_encode cs = concat (map utf8_encode_char cs)"

definition unicode_scalar :: "nat \<Rightarrow> bool" where
  "unicode_scalar c \<longleftrightarrow> c < 0x110000 \<and> \<not> (0xD800 \<le> c \<and> c \<le> 0xDFFF)"

text \<open>Universal newlines on the decoded text, and the same translation on bytes.\<close>

function universal_nl :: "nat list \<Rightarrow> nat list" where
  "universal_nl [] = []"
| "universal_nl (c # r) =
     (if c = 13 then 10 # universal_nl (if r \<noteq> [] \<and> hd r = 10 then tl r else r)
      else c # universal_nl r)"
  by pat_completeness auto
termination
  by (relation "measure length") auto

function bytes_nl :: "bytes \<Rightarrow> bytes" where
  "bytes_nl [] = []"
| "bytes_nl (b # r) =
     (if b = 13 then 10 # bytes_nl (if r \<noteq> [] \<and> hd r = 10 then tl r else r)
      else b # bytes_nl r)"
  by pat_completeness auto
termination
  by (relation "measure length") auto

text \<open>
  \<open>open(f, "r").read()\<close>: the text of a file as code points, and with \<open>.encode()\<close>
  after it the bytes that are hashed.  A literal or a path of the script, an
  Isabelle string, is text whose code points are its characters.
\<close>

definition py_decode_text :: "bytes \<Rightarrow> py_exc + nat list" where
  "py_decode_text bs =
     (case utf8_decode bs of
        None \<Rightarrow> Inl UnicodeDecodeError
      | Some cs \<Rightarrow> Inr (universal_nl cs))"

definition py_read_text :: "bytes \<Rightarrow> py_exc + bytes" where
  "py_read_text bs = exc_bind (py_decode_text bs) (\<lambda>t. Inr (utf8_encode t))"

definition py_text :: "string \<Rightarrow> nat list" where
  "py_text s = map of_char s"

declare utf8_cont_def [py_eval] cont_val_def [py_eval] utf8_encode_char_def [py_eval]
  utf8_encode_def [py_eval] py_decode_text_def [py_eval] py_read_text_def [py_eval]
  py_text_def [py_eval]

subsection \<open>Arithmetic of the code-point fields\<close>



lemma div64 [simp]: "d < 64 \<Longrightarrow> ((a :: nat) * 64 + d) div 64 = a"
  by simp

lemma mod64 [simp]: "d < 64 \<Longrightarrow> ((a :: nat) * 64 + d) mod 64 = d"
  by simp

lemma utf8_cont_unat: "utf8_cont c \<longleftrightarrow> 128 \<le> unat c \<and> unat c \<le> 191"
  by (simp add: utf8_cont_def word_le_nat_alt)

lemma cont_val_less: "utf8_cont c \<Longrightarrow> cont_val c < 64"
  unfolding utf8_cont_unat cont_val_def by arith

lemma byte_le_unat: "((k :: byte) \<le> b) = (unat k \<le> unat b)" "((b :: byte) < k) = (unat b < unat k)"
  by (simp_all add: word_le_nat_alt word_less_nat_alt)

lemma enc1: "b < 0x80 \<Longrightarrow> utf8_encode_char (unat b) = [b]"
  by (simp add: utf8_encode_char_def byte_le_unat)

lemma enc2:
  assumes "0xC2 \<le> b" "b < 0xE0" "utf8_cont c"
  shows "utf8_encode_char ((unat b - 0xC0) * 64 + cont_val c) = [b, c]"
proof -
  have b: "194 \<le> unat b" "unat b < 224" and c: "128 \<le> unat c" "unat c \<le> 191"
    using assms by (simp_all add: byte_le_unat utf8_cont_unat)
  have d: "cont_val c < 64" using assms(3) by (rule cont_val_less)
  define x where "x = unat b - 0xC0"
  have x: "2 \<le> x" "x < 32" using b unfolding x_def by arith+
  have "(of_nat (0xC0 + x) :: byte) = b" "(of_nat (0x80 + cont_val c) :: byte) = c"
    using b c unfolding x_def cont_val_def by simp_all
  moreover have "128 \<le> x * 64 + cont_val c" "x * 64 + cont_val c < 2048"
    using x d by linarith+
  ultimately show ?thesis
    using d by (simp add: utf8_encode_char_def x_def [symmetric])
qed


lemma cont_from_range:
  "(if (b :: byte) = 0xE0 then 0xA0 \<le> c \<and> c \<le> 0xBF else if b = 0xED then 0x80 \<le> c \<and> c \<le> 0x9F else utf8_cont c)
   \<Longrightarrow> utf8_cont c"
  "(if (b :: byte) = 0xF0 then 0x90 \<le> c \<and> c \<le> 0xBF else if b = 0xF4 then 0x80 \<le> c \<and> c \<le> 0x8F else utf8_cont c)
   \<Longrightarrow> utf8_cont c"
  by (auto simp: utf8_cont_def byte_le_unat split: if_splits)

lemma enc3:
  assumes "0xE0 \<le> b" "b < 0xF0"
    and c1: "if b = 0xE0 then 0xA0 \<le> c1 \<and> c1 \<le> 0xBF
             else if b = 0xED then 0x80 \<le> c1 \<and> c1 \<le> 0x9F else utf8_cont c1"
    and c2: "utf8_cont c2"
  shows "utf8_encode_char (((unat b - 0xE0) * 64 + cont_val c1) * 64 + cont_val c2) = [b, c1, c2]"
proof -
  have b: "224 \<le> unat b" "unat b < 240"
    using assms by (simp_all add: byte_le_unat)
  have u1: "utf8_cont c1" using c1 by (rule cont_from_range)
  have d: "cont_val c1 < 64" "cont_val c2 < 64"
    using u1 c2 by (simp_all add: cont_val_less)
  define x where "x = unat b - 0xE0"
  have x: "x < 16" using b unfolding x_def by arith
  have low: "x = 0 \<Longrightarrow> 32 \<le> cont_val c1"
  proof -
    assume "x = 0"
    then have "unat b = 224" using b unfolding x_def by arith
    then have "b = 0xE0" by (simp add: word_unat_eq_iff)
    then have "160 \<le> unat c1" using c1 by (simp add: byte_le_unat)
    then show ?thesis unfolding cont_val_def by arith
  qed
  have o: "(of_nat (0xE0 + x) :: byte) = b" "(of_nat (0x80 + cont_val c1) :: byte) = c1"
    "(of_nat (0x80 + cont_val c2) :: byte) = c2"
    using b u1 c2 unfolding x_def cont_val_def utf8_cont_unat by simp_all
  define v where "v = (x * 64 + cont_val c1) * 64 + cont_val c2"
  have "2048 \<le> v"
    using low unfolding v_def by (cases x) simp_all
  moreover have "v < 65536"
  proof -
    have "x * 64 + cont_val c1 \<le> 1023" using x d by linarith
    then have "(x * 64 + cont_val c1) * 64 \<le> 1023 * 64" by (rule mult_le_mono1)
    then show ?thesis using d unfolding v_def by linarith
  qed
  moreover have "v div 64 = x * 64 + cont_val c1" "v mod 64 = cont_val c2"
    "v div 64 div 64 = x" "v div 64 mod 64 = cont_val c1"
    using d unfolding v_def by (simp_all only: div64 mod64)
  ultimately have "utf8_encode_char v = [b, c1, c2]"
    using o by (simp add: utf8_encode_char_def)
  then show ?thesis
    unfolding v_def x_def .
qed


lemma enc4:
  assumes "0xF0 \<le> b" "b < 0xF5"
    and c1: "if b = 0xF0 then 0x90 \<le> c1 \<and> c1 \<le> 0xBF
             else if b = 0xF4 then 0x80 \<le> c1 \<and> c1 \<le> 0x8F else utf8_cont c1"
    and c2: "utf8_cont c2" and c3: "utf8_cont c3"
  shows "utf8_encode_char ((((unat b - 0xF0) * 64 + cont_val c1) * 64 + cont_val c2) * 64 + cont_val c3)
         = [b, c1, c2, c3]"
proof -
  have b: "240 \<le> unat b" "unat b < 245"
    using assms by (simp_all add: byte_le_unat)
  have u1: "utf8_cont c1" using c1 by (rule cont_from_range)
  have d: "cont_val c1 < 64" "cont_val c2 < 64" "cont_val c3 < 64"
    using u1 c2 c3 by (simp_all add: cont_val_less)
  define x where "x = unat b - 0xF0"
  have low: "x = 0 \<Longrightarrow> 16 \<le> cont_val c1"
  proof -
    assume "x = 0"
    then have "unat b = 240" using b unfolding x_def by arith
    then have "b = 0xF0" by (simp add: word_unat_eq_iff)
    then have "144 \<le> unat c1" using c1 by (simp add: byte_le_unat)
    then show ?thesis unfolding cont_val_def by arith
  qed
  have o: "(of_nat (0xF0 + x) :: byte) = b" "(of_nat (0x80 + cont_val c1) :: byte) = c1"
    "(of_nat (0x80 + cont_val c2) :: byte) = c2" "(of_nat (0x80 + cont_val c3) :: byte) = c3"
    using b u1 c2 c3 unfolding x_def cont_val_def utf8_cont_unat by simp_all
  define v where "v = ((x * 64 + cont_val c1) * 64 + cont_val c2) * 64 + cont_val c3"
  have "65536 \<le> v"
    using low unfolding v_def by (cases x) simp_all
  moreover have "v div 64 = (x * 64 + cont_val c1) * 64 + cont_val c2" "v mod 64 = cont_val c3"
    "v div 64 div 64 = x * 64 + cont_val c1" "v div 64 mod 64 = cont_val c2"
    "v div 64 div 64 div 64 = x" "v div 64 div 64 mod 64 = cont_val c1"
    using d unfolding v_def by (simp_all only: div64 mod64)
  ultimately have "utf8_encode_char v = [b, c1, c2, c3]"
    using o by (simp add: utf8_encode_char_def)
  then show ?thesis
    unfolding v_def x_def .
qed

subsection \<open>Encoding inverts decoding\<close>

lemma utf8_encode_Nil [simp]: "utf8_encode [] = []"
  by (simp add: utf8_encode_def)

lemma utf8_encode_Cons [simp]: "utf8_encode (c # cs) = utf8_encode_char c @ utf8_encode cs"
  by (simp add: utf8_encode_def)

lemma scalar3_digits:
  fixes x d1 d2 :: nat
  assumes "x < 16" "d1 < 64" "d2 < 64" "x = 13 \<Longrightarrow> d1 < 32"
  shows "unicode_scalar ((x * 64 + d1) * 64 + d2)"
proof -
  have v: "(x * 64 + d1) * 64 + d2 = x * 4096 + d1 * 64 + d2" by (simp add: algebra_simps)
  consider "x \<le> 12" | "x = 13" | "14 \<le> x" by linarith
  then show ?thesis
  proof cases
    case 1 then show ?thesis using assms unfolding unicode_scalar_def v by linarith
  next
    case 2 then show ?thesis using assms unfolding unicode_scalar_def v by simp
  next
    case 3 then show ?thesis using assms unfolding unicode_scalar_def v by linarith
  qed
qed

lemma scalar4_digits:
  fixes x d1 d2 d3 :: nat
  assumes "x < 5" "d1 < 64" "d2 < 64" "d3 < 64" "x = 0 \<Longrightarrow> 16 \<le> d1" "x = 4 \<Longrightarrow> d1 < 16"
  shows "unicode_scalar (((x * 64 + d1) * 64 + d2) * 64 + d3)"
proof -
  have v: "((x * 64 + d1) * 64 + d2) * 64 + d3 = x * 262144 + d1 * 4096 + d2 * 64 + d3"
    by (simp add: algebra_simps)
  consider "x = 0" | "1 \<le> x" "x \<le> 3" | "x = 4" using assms by linarith
  then show ?thesis
  proof cases
    case 1 then show ?thesis using assms unfolding unicode_scalar_def v by simp
  next
    case 2 then show ?thesis using assms unfolding unicode_scalar_def v by linarith
  next
    case 3 then show ?thesis using assms unfolding unicode_scalar_def v by simp
  qed
qed

lemma sc3:
  assumes "0xE0 \<le> (b :: byte)" "b < 0xF0"
    and c1: "if b = 0xE0 then 0xA0 \<le> c1 \<and> c1 \<le> 0xBF
             else if b = 0xED then 0x80 \<le> c1 \<and> c1 \<le> 0x9F else utf8_cont c1"
    and c2: "utf8_cont c2"
  shows "unicode_scalar (((unat b - 0xE0) * 64 + cont_val c1) * 64 + cont_val c2)"
proof (rule scalar3_digits)
  have b: "224 \<le> unat b" "unat b < 240"
    using assms by (simp_all add: byte_le_unat)
  then show "unat b - 0xE0 < 16" by arith
  show "cont_val c1 < 64" "cont_val c2 < 64"
    using cont_from_range(1) [OF c1] c2 by (simp_all add: cont_val_less)
  show "cont_val c1 < 32" if "unat b - 0xE0 = 13"
  proof -
    have "unat b = 237" using b that by arith
    then have "b = 0xED" by (simp add: word_unat_eq_iff)
    then have "unat c1 \<le> 159" "128 \<le> unat c1" using c1 by (simp_all add: byte_le_unat)
    then show ?thesis unfolding cont_val_def by arith
  qed
qed

lemma sc4:
  assumes "0xF0 \<le> (b :: byte)" "b < 0xF5"
    and c1: "if b = 0xF0 then 0x90 \<le> c1 \<and> c1 \<le> 0xBF
             else if b = 0xF4 then 0x80 \<le> c1 \<and> c1 \<le> 0x8F else utf8_cont c1"
    and c2: "utf8_cont c2" and c3: "utf8_cont c3"
  shows "unicode_scalar ((((unat b - 0xF0) * 64 + cont_val c1) * 64 + cont_val c2) * 64 + cont_val c3)"
proof (rule scalar4_digits)
  have b: "240 \<le> unat b" "unat b < 245"
    using assms by (simp_all add: byte_le_unat)
  then show "unat b - 0xF0 < 5" by arith
  show "cont_val c1 < 64" "cont_val c2 < 64" "cont_val c3 < 64"
    using cont_from_range(2) [OF c1] c2 c3 by (simp_all add: cont_val_less)
  show "16 \<le> cont_val c1" if "unat b - 0xF0 = 0"
  proof -
    have "unat b = 240" using b that by arith
    then have "b = 0xF0" by (simp add: word_unat_eq_iff)
    then have "144 \<le> unat c1" using c1 by (simp add: byte_le_unat)
    then show ?thesis unfolding cont_val_def by arith
  qed
  show "cont_val c1 < 16" if "unat b - 0xF0 = 4"
  proof -
    have "unat b = 244" using b that by arith
    then have "b = 0xF4" by (simp add: word_unat_eq_iff)
    then have "unat c1 \<le> 143" "128 \<le> unat c1" using c1 by (simp_all add: byte_le_unat)
    then show ?thesis unfolding cont_val_def by arith
  qed
qed

lemma sc2:
  assumes "0xC2 \<le> (b :: byte)" "b < 0xE0" "utf8_cont c"
  shows "unicode_scalar ((unat b - 0xC0) * 64 + cont_val c)"
proof -
  have "unat b < 224" using assms by (simp add: byte_le_unat)
  moreover have "cont_val c < 64" using assms(3) by (rule cont_val_less)
  ultimately show ?thesis unfolding unicode_scalar_def by arith
qed

text \<open>One step of the decoder: the first character of a well-formed sequence is a
  Unicode scalar value whose encoding is the first one to four bytes.\<close>

lemma utf8_decode_step:
  assumes "utf8_decode (b # bs) = Some cs"
  shows "\<exists>k c cs'. k \<le> 3 \<and> cs = c # cs' \<and> utf8_decode (drop k bs) = Some cs'
           \<and> utf8_encode_char c = b # take k bs \<and> unicode_scalar c"
proof (cases "b < 0x80")
  case True
  with assms obtain cs' where "cs = unat b # cs'" "utf8_decode bs = Some cs'"
    by auto
  moreover have "unicode_scalar (unat b)"
    using True by (simp add: unicode_scalar_def byte_le_unat)
  ultimately show ?thesis
    using enc1 [OF True] by (intro exI [of _ 0] exI [of _ "unat b"] exI [of _ cs']) simp
next
  case n1: False
  show ?thesis
  proof (cases "b < 0xC2")
    case True
    then show ?thesis using assms n1 by simp
  next
    case n2: False
    show ?thesis
    proof (cases "b < 0xE0")
      case True
      with assms n1 n2 obtain c1 r cs' where bs: "bs = c1 # r" and u: "utf8_cont c1"
        and r: "utf8_decode r = Some cs'" and cs: "cs = ((unat b - 0xC0) * 64 + cont_val c1) # cs'"
        by (auto split: list.splits if_splits)
      then show ?thesis
        using enc2 [of b c1] sc2 [of b c1] n2 True
        by (intro exI [of _ 1] exI [of _ "(unat b - 0xC0) * 64 + cont_val c1"] exI [of _ cs']) (simp add: not_less)
    next
      case n3: False
      show ?thesis
      proof (cases "b < 0xF0")
        case True
        with assms n1 n2 n3 obtain c1 c2 r cs' where bs: "bs = c1 # c2 # r"
          and u: "(if b = 0xE0 then 0xA0 \<le> c1 \<and> c1 \<le> 0xBF
                   else if b = 0xED then 0x80 \<le> c1 \<and> c1 \<le> 0x9F else utf8_cont c1)
                  \<and> utf8_cont c2"
          and r: "utf8_decode r = Some cs'"
          and cs: "cs = (((unat b - 0xE0) * 64 + cont_val c1) * 64 + cont_val c2) # cs'"
          by (auto split: list.splits if_splits)
        then show ?thesis
          using enc3 [of b c1 c2] sc3 [of b c1 c2] n3 True
          by (intro exI [of _ 2] exI [of _ "((unat b - 0xE0) * 64 + cont_val c1) * 64 + cont_val c2"] exI [of _ cs']) (simp add: not_less)
      next
        case n4: False
        show ?thesis
        proof (cases "b < 0xF5")
          case True
          with assms n1 n2 n3 n4 obtain c1 c2 c3 r cs' where bs: "bs = c1 # c2 # c3 # r"
            and u: "(if b = 0xF0 then 0x90 \<le> c1 \<and> c1 \<le> 0xBF
                     else if b = 0xF4 then 0x80 \<le> c1 \<and> c1 \<le> 0x8F else utf8_cont c1)
                    \<and> utf8_cont c2 \<and> utf8_cont c3"
            and r: "utf8_decode r = Some cs'"
            and cs: "cs = ((((unat b - 0xF0) * 64 + cont_val c1) * 64 + cont_val c2) * 64
                           + cont_val c3) # cs'"
            by (auto split: list.splits if_splits)
          then show ?thesis
            using enc4 [of b c1 c2 c3] sc4 [of b c1 c2 c3] n4 True
            by (intro exI [of _ 3] exI [of _ "(((unat b - 0xF0) * 64 + cont_val c1) * 64 + cont_val c2) * 64 + cont_val c3"] exI [of _ cs']) (simp add: not_less)
        next
          case False
          then show ?thesis using assms n1 n2 n3 n4 by simp
        qed
      qed
    qed
  qed
qed

theorem utf8_decode_encode: "utf8_decode bs = Some cs \<Longrightarrow> utf8_encode cs = bs"
proof (induction bs arbitrary: cs rule: length_induct)
  case (1 bs)
  show ?case
  proof (cases bs)
    case Nil
    then show ?thesis using "1.prems" by simp
  next
    case (Cons b bs')
    then obtain k c cs' where "cs = c # cs'" "utf8_decode (drop k bs') = Some cs'"
      "utf8_encode_char c = b # take k bs'"
      using utf8_decode_step "1.prems" by blast
    moreover have "utf8_encode cs' = drop k bs'"
    proof -
      have "length (drop k bs') < length bs" using Cons by simp
      then show ?thesis using "1.IH" calculation(2) by blast
    qed
    ultimately show ?thesis using Cons by simp
  qed
qed

theorem utf8_decode_scalar: "utf8_decode bs = Some cs \<Longrightarrow> list_all unicode_scalar cs"
proof (induction bs arbitrary: cs rule: length_induct)
  case (1 bs)
  show ?case
  proof (cases bs)
    case Nil
    then show ?thesis using "1.prems" by simp
  next
    case (Cons b bs')
    then obtain k c cs' where "cs = c # cs'" "utf8_decode (drop k bs') = Some cs'" "unicode_scalar c"
      using utf8_decode_step "1.prems" by blast
    moreover have "list_all unicode_scalar cs'"
    proof -
      have "length (drop k bs') < length bs" using Cons by simp
      then show ?thesis using "1.IH" calculation(2) by blast
    qed
    ultimately show ?thesis by simp
  qed
qed

lemma unat_byte_of_nat [simp]: "n < 256 \<Longrightarrow> unat (of_nat n :: byte) = n"
  by (simp add: unat_of_nat)

lemma dec1: "c < 0x80 \<Longrightarrow> utf8_decode (utf8_encode_char c @ rest) = map_option (Cons c) (utf8_decode rest)"
  by (simp add: utf8_encode_char_def byte_le_unat)

lemma dec2:
  assumes "0x80 \<le> c" "c < 0x800"
  shows "utf8_decode (utf8_encode_char c @ rest) = map_option (Cons c) (utf8_decode rest)"
proof -
  define b1 where "b1 = (of_nat (192 + c div 64) :: byte)"
  define b2 where "b2 = (of_nat (128 + c mod 64) :: byte)"
  have q: "2 \<le> c div 64" "c div 64 < 32" "c mod 64 \<le> 63" using assms by arith+
  have u: "unat b1 = 192 + c div 64" "unat b2 = 128 + c mod 64"
    unfolding b1_def b2_def by (rule unat_byte_of_nat, use q in linarith)+
  have v: "(c div 64) * 64 + c mod 64 = c" by simp
  have "utf8_encode_char c = [b1, b2]"
    using assms by (simp add: utf8_encode_char_def b1_def b2_def)
  with q u v show ?thesis
    by (simp add: byte_le_unat utf8_cont_unat cont_val_def)
qed


lemma div_lt_of_lt: "(c :: nat) < k * m \<Longrightarrow> c div k < m"
  by (rule less_mult_imp_div_less) (simp add: mult.commute)
lemma div_ge_of_ge: "k * m \<le> (c :: nat) \<Longrightarrow> 0 < k \<Longrightarrow> m \<le> c div k"
  by (metis div_le_mono nonzero_mult_div_cancel_left not_gr0)
lemma lt_of_div_eq: "(c :: nat) div k = q \<Longrightarrow> 0 < k \<Longrightarrow> c < k * (q + 1)"
proof -
  assume "c div k = q" "0 < k"
  then have "k * q + c mod k = c" "c mod k < k"
    using div_mult_mod_eq [of c k] by (simp_all add: mult.commute)
  then show ?thesis by simp
qed
lemma div4096: "(c :: nat) div 64 div 64 = c div 4096"
  using div_mult2_eq [of c 64 64] by simp
lemma div262144: "(c :: nat) div 64 div 64 div 64 = c div 262144"
  using div_mult2_eq [of c 4096 64] by (simp add: div4096)
lemma mod64_le: "(x :: nat) mod 64 \<le> 63"
  using mod_less_divisor [of 64 x] by linarith

lemma mod64_less_of_div: "(t :: nat) < 64 * q + k \<Longrightarrow> t div 64 = q \<Longrightarrow> t mod 64 < k"
  using div_mult_mod_eq [of t 64] by linarith

lemma mod64_ge_of_div: "64 * q + k \<le> (t :: nat) \<Longrightarrow> t div 64 = q \<Longrightarrow> k \<le> t mod 64"
  using div_mult_mod_eq [of t 64] by linarith

lemma dec3:
  assumes "0x800 \<le> c" "c < 0x10000" "\<not> (0xD800 \<le> c \<and> c \<le> 0xDFFF)"
  shows "utf8_decode (utf8_encode_char c @ rest) = map_option (Cons c) (utf8_decode rest)"
proof -
  define b1 where "b1 = (of_nat (224 + c div 64 div 64) :: byte)"
  define b2 where "b2 = (of_nat (128 + c div 64 mod 64) :: byte)"
  define b3 where "b3 = (of_nat (128 + c mod 64) :: byte)"
  have q0: "c div 64 div 64 < 16" "32 \<le> c div 64"
    using assms by (simp_all add: div4096 div_lt_of_lt div_ge_of_ge)
  have m: "c div 64 mod 64 \<le> 63" "c mod 64 \<le> 63" by (rule mod64_le)+
  have e0: "c div 64 div 64 = 0 \<Longrightarrow> 32 \<le> c div 64 mod 64"
    using mod64_ge_of_div [of 0 32 "c div 64"] q0(2) by simp
  have e13: "c div 64 div 64 = 13 \<Longrightarrow> c div 64 mod 64 \<le> 31"
  proof -
    assume d: "c div 64 div 64 = 13"
    then have "c < 4096 * 14" using lt_of_div_eq [of c 4096 13] by (simp add: div4096)
    with assms(3) have "c < 64 * 864" by linarith
    then have "c div 64 < 864" by (rule div_lt_of_lt)
    with d show ?thesis using mod64_less_of_div [of "c div 64" 13 32] by simp
  qed
  note q = q0(1) m e0 e13
  have u: "unat b1 = 224 + c div 64 div 64" "unat b2 = 128 + c div 64 mod 64"
    "unat b3 = 128 + c mod 64"
    unfolding b1_def b2_def b3_def by (rule unat_byte_of_nat, use q in linarith)+
  have v: "((c div 64 div 64) * 64 + c div 64 mod 64) * 64 + c mod 64 = c" by simp
  have "utf8_encode_char c = [b1, b2, b3]"
    using assms by (simp add: utf8_encode_char_def b1_def b2_def b3_def)
  moreover have "b1 = 0xE0 \<longleftrightarrow> c div 64 div 64 = 0" "b1 = 0xED \<longleftrightarrow> c div 64 div 64 = 13"
    using u by (simp_all add: word_unat_eq_iff)
  ultimately show ?thesis
    using q u v by (simp add: byte_le_unat utf8_cont_unat cont_val_def)
qed

lemma dec4_digits:
  fixes x3 x2 x1 x0 :: nat
  assumes q: "x3 < 5" "x2 \<le> 63" "x1 \<le> 63" "x0 \<le> 63"
    and e0: "x3 = 0 \<Longrightarrow> 16 \<le> x2" and e4: "x3 = 4 \<Longrightarrow> x2 \<le> 15"
  shows "utf8_decode ([of_nat (240 + x3), of_nat (128 + x2), of_nat (128 + x1), of_nat (128 + x0)] @ rest)
         = map_option (Cons (((x3 * 64 + x2) * 64 + x1) * 64 + x0)) (utf8_decode rest)"
proof -
  define b1 where "b1 = (of_nat (240 + x3) :: byte)"
  define b2 where "b2 = (of_nat (128 + x2) :: byte)"
  define b3 where "b3 = (of_nat (128 + x1) :: byte)"
  define b4 where "b4 = (of_nat (128 + x0) :: byte)"
  have u: "unat b1 = 240 + x3" "unat b2 = 128 + x2" "unat b3 = 128 + x1" "unat b4 = 128 + x0"
    unfolding b1_def b2_def b3_def b4_def by (rule unat_byte_of_nat, use q in linarith)+
  have "\<not> b1 < 0x80" "\<not> b1 < 0xC2" "\<not> b1 < 0xE0" "\<not> b1 < 0xF0" "b1 < 0xF5"
    using u q by (simp_all add: byte_le_unat)
  moreover have "utf8_cont b3" "utf8_cont b4"
    using u q by (simp_all add: utf8_cont_unat)
  moreover have "if b1 = 0xF0 then 0x90 \<le> b2 \<and> b2 \<le> 0xBF
                 else if b1 = 0xF4 then 0x80 \<le> b2 \<and> b2 \<le> 0x8F else utf8_cont b2"
  proof -
    have "b1 = 0xF0 \<longleftrightarrow> x3 = 0" "b1 = 0xF4 \<longleftrightarrow> x3 = 4"
      using u by (simp_all add: word_unat_eq_iff)
    then show ?thesis
      using u q e0 e4 by (simp add: byte_le_unat utf8_cont_unat)
  qed
  moreover have "(((unat b1 - 0xF0) * 64 + cont_val b2) * 64 + cont_val b3) * 64 + cont_val b4
                 = ((x3 * 64 + x2) * 64 + x1) * 64 + x0"
    using u by (simp add: cont_val_def)
  ultimately show ?thesis
    unfolding b1_def [symmetric] b2_def [symmetric] b3_def [symmetric] b4_def [symmetric]
    by simp
qed

lemma dec4:
  assumes "0x10000 \<le> c" "c < 0x110000"
  shows "utf8_decode (utf8_encode_char c @ rest) = map_option (Cons c) (utf8_decode rest)"
proof -
  have q0: "c div 64 div 64 div 64 < 5" "16 \<le> c div 64 div 64" "c div 64 div 64 < 272"
    using assms by (simp_all add: div262144 div4096 div_lt_of_lt div_ge_of_ge)
  have e0: "c div 64 div 64 div 64 = 0 \<Longrightarrow> 16 \<le> c div 64 div 64 mod 64"
    using mod64_ge_of_div [of 0 16 "c div 64 div 64"] q0(2) by simp
  have e4: "c div 64 div 64 div 64 = 4 \<Longrightarrow> c div 64 div 64 mod 64 \<le> 15"
    using mod64_less_of_div [of "c div 64 div 64" 4 16] q0(3) by simp
  have v: "(((c div 64 div 64 div 64) * 64 + c div 64 div 64 mod 64) * 64 + c div 64 mod 64) * 64
           + c mod 64 = c" by simp
  have "utf8_encode_char c =
          [of_nat (240 + c div 64 div 64 div 64), of_nat (128 + c div 64 div 64 mod 64),
           of_nat (128 + c div 64 mod 64), of_nat (128 + c mod 64)]"
    using assms by (simp add: utf8_encode_char_def)
  then show ?thesis
    using dec4_digits [where rest = rest, OF q0(1) mod64_le mod64_le mod64_le e0 e4] by (simp only: v)
qed

lemma utf8_decode_char:
  "unicode_scalar c \<Longrightarrow> utf8_decode (utf8_encode_char c @ rest) = map_option (Cons c) (utf8_decode rest)"
  unfolding unicode_scalar_def
  using dec1 [of c rest] dec2 [of c rest] dec3 [of c rest] dec4 [of c rest] by linarith

theorem utf8_encode_decode: "list_all unicode_scalar cs \<Longrightarrow> utf8_decode (utf8_encode cs) = Some cs"
  by (induction cs) (simp_all add: utf8_decode_char)


lemma encode_char_high:
  assumes "unicode_scalar c" "0x80 \<le> c"
  shows "list_all (\<lambda>x. 0x80 \<le> unat x) (utf8_encode_char c)"
proof -
  have hi: "0x80 \<le> unat (of_nat n :: byte)" if "128 \<le> n" "n < 256" for n
    using that by simp
  have c: "c < 0x110000" using assms(1) by (simp add: unicode_scalar_def)
  have m: "c div 64 mod 64 \<le> 63" "c mod 64 \<le> 63" "c div 64 div 64 mod 64 \<le> 63"
    by (rule mod64_le)+
  consider "c < 0x800" | "0x800 \<le> c" "c < 0x10000" | "0x10000 \<le> c" by linarith
  then show ?thesis
  proof cases
    case 1
    then have d: "c div 64 < 32" by (simp add: div_lt_of_lt)
    have e: "utf8_encode_char c = [of_nat (192 + c div 64), of_nat (128 + c mod 64)]"
      using assms(2) 1 by (simp add: utf8_encode_char_def)
    show ?thesis
      unfolding e list.pred_inject using d m by (intro conjI hi; (linarith | simp))
  next
    case 2
    then have d: "c div 64 div 64 < 16" by (simp add: div4096 div_lt_of_lt)
    have e: "utf8_encode_char c = [of_nat (224 + c div 64 div 64), of_nat (128 + c div 64 mod 64),
        of_nat (128 + c mod 64)]"
      using 2 by (simp add: utf8_encode_char_def)
    show ?thesis
      unfolding e list.pred_inject using d m by (intro conjI hi; (linarith | simp))
  next
    case 3
    then have d: "c div 64 div 64 div 64 < 5" using c by (simp add: div262144 div_lt_of_lt)
    have e: "utf8_encode_char c = [of_nat (240 + c div 64 div 64 div 64),
        of_nat (128 + c div 64 div 64 mod 64), of_nat (128 + c div 64 mod 64), of_nat (128 + c mod 64)]"
      using 3 by (simp add: utf8_encode_char_def)
    show ?thesis
      unfolding e list.pred_inject using d m by (intro conjI hi; (linarith | simp))
  qed
qed

lemma bytes_nl_append: "13 \<notin> set xs \<Longrightarrow> bytes_nl (xs @ ys) = xs @ bytes_nl ys"
  by (induction xs) simp_all

lemma encode_char_no_cr:
  assumes "unicode_scalar c" "c \<noteq> 13"
  shows "13 \<notin> set (utf8_encode_char c)"
proof (cases "c < 0x80")
  case True
  then have "unat (of_nat c :: byte) = c" by simp
  then have "(of_nat c :: byte) \<noteq> 13" using assms(2) by auto
  with True show ?thesis by (simp add: utf8_encode_char_def)
next
  case False
  then have "list_all (\<lambda>x. 0x80 \<le> unat x) (utf8_encode_char c)"
    using assms(1) by (simp add: encode_char_high)
  then show ?thesis by (auto simp: list_all_iff)
qed


lemma utf8_decode_hd_lf:
  assumes "utf8_decode bs = Some cs"
  shows "(cs \<noteq> [] \<and> hd cs = 10) = (bs \<noteq> [] \<and> hd bs = 10)
         \<and> (bs \<noteq> [] \<and> hd bs = 10 \<longrightarrow> utf8_decode (tl bs) = Some (tl cs))"
proof (cases bs)
  case Nil
  then show ?thesis using assms by simp
next
  case (Cons b r)
  show ?thesis
  proof (cases "b = 10")
    case True
    then show ?thesis using assms Cons by auto
  next
    case False
    obtain k c cs' where "cs = c # cs'" "utf8_encode_char c = b # take k r"
      using utf8_decode_step assms Cons by blast
    moreover have "utf8_encode_char 10 = [10]" by (simp add: utf8_encode_char_def)
    ultimately have "c \<noteq> 10" using False by auto
    then show ?thesis using False Cons \<open>cs = c # cs'\<close> by simp
  qed
qed

theorem py_read_text_bytes_nl:
  "utf8_decode bs = Some cs \<Longrightarrow> utf8_encode (universal_nl cs) = bytes_nl bs"
proof (induction bs arbitrary: cs rule: length_induct)
  case (1 bs)
  show ?case
  proof (cases bs)
    case Nil
    then show ?thesis using "1.prems" by simp
  next
    case (Cons b bs')
    then obtain k c cs' where cs: "cs = c # cs'" and dec: "utf8_decode (drop k bs') = Some cs'"
      and enc: "utf8_encode_char c = b # take k bs'" and sc: "unicode_scalar c"
      using utf8_decode_step "1.prems" by blast
    have IH: "utf8_decode xs = Some ys \<Longrightarrow> length xs < length bs \<Longrightarrow>
              utf8_encode (universal_nl ys) = bytes_nl xs" for xs ys
      using "1.IH" by blast
    show ?thesis
    proof (cases "c = 13")
      case True
      then have "b = 13" "take k bs' = []"
        using enc by (simp_all add: utf8_encode_char_def)
      then have d: "utf8_decode bs' = Some cs'"
        using dec by (metis append_Nil take_all_iff append_take_drop_id)
      note hd = utf8_decode_hd_lf [OF d]
      show ?thesis
      proof (cases "bs' \<noteq> [] \<and> hd bs' = 10")
        case True
        then have "utf8_encode (universal_nl (tl cs')) = bytes_nl (tl bs')"
          using hd Cons by (intro IH) (simp_all add: length_tl)
        then show ?thesis using True hd Cons cs \<open>c = 13\<close> \<open>b = 13\<close> by (simp add: utf8_encode_char_def)
      next
        case False
        then have "utf8_encode (universal_nl cs') = bytes_nl bs'"
          using d Cons by (intro IH) simp_all
        moreover have "\<not> (cs' \<noteq> [] \<and> hd cs' = 10)" using False hd by blast
        then have "universal_nl (13 # cs') = 10 # universal_nl cs'" by (simp only: universal_nl.simps if_True if_False) simp
        moreover have "bytes_nl (13 # bs') = 10 # bytes_nl bs'" using False by (simp only: bytes_nl.simps if_True if_False) simp
        ultimately show ?thesis
          using Cons cs \<open>c = 13\<close> \<open>b = 13\<close> by (simp add: utf8_encode_char_def)
      qed
    next
      case False
      have bs: "bs = utf8_encode_char c @ drop k bs'"
        using enc Cons by simp
      have "utf8_encode (universal_nl cs') = bytes_nl (drop k bs')"
        using dec Cons by (intro IH) simp_all
      then show ?thesis
        using False cs bs encode_char_no_cr [OF sc False] by (simp add: bytes_nl_append)
    qed
  qed
qed


subsection \<open>Text that needs no translation\<close>

lemma universal_nl_no_cr: "13 \<notin> set cs \<Longrightarrow> universal_nl cs = cs"
  by (induction cs rule: universal_nl.induct) auto

lemma py_text_scalar: "list_all unicode_scalar (py_text s)"
proof -
  have "unicode_scalar (of_char c)" for c
    using nat_of_char_less_256 [of c] unfolding unicode_scalar_def by linarith
  then show ?thesis by (simp add: py_text_def list_all_iff)
qed

lemma of_char_eq_13: "(of_char x :: nat) = 13 \<Longrightarrow> x = CHR 0x0D"
proof -
  assume "(of_char x :: nat) = 13"
  then have "x = char_of (13 :: nat)" by (metis char_of_char)
  then show ?thesis by (simp add: char_of_def bit_0)
qed

lemma py_decode_text_encode:
  "13 \<notin> set cs \<Longrightarrow> list_all unicode_scalar cs \<Longrightarrow> py_decode_text (utf8_encode cs) = Inr cs"
  by (simp add: py_decode_text_def utf8_encode_decode universal_nl_no_cr)


subsection \<open>Properties of the text read\<close>

text \<open>
  C26.  Reading a file in text mode succeeds with the text \<open>t\<close> exactly when the
  file's bytes are the UTF-8 encoding of a list of Unicode scalar values (no
  surrogate, at most \<open>0x10FFFF\<close>) and \<open>t\<close> is that list with its newlines
  translated: decoding and encoding are inverse.
\<close>

theorem utf8_roundtrip:
  "py_decode_text bs = Inr t \<longleftrightarrow>
     (\<exists>cs. list_all unicode_scalar cs \<and> utf8_encode cs = bs \<and> t = universal_nl cs)"
proof
  assume "py_decode_text bs = Inr t"
  then obtain cs where "utf8_decode bs = Some cs" "t = universal_nl cs"
    by (auto simp: py_decode_text_def split: option.splits)
  then show "\<exists>cs. list_all unicode_scalar cs \<and> utf8_encode cs = bs \<and> t = universal_nl cs"
    using utf8_decode_scalar utf8_decode_encode by blast
next
  assume "\<exists>cs. list_all unicode_scalar cs \<and> utf8_encode cs = bs \<and> t = universal_nl cs"
  then show "py_decode_text bs = Inr t"
    using utf8_encode_decode by (auto simp: py_decode_text_def)
qed

text \<open>
  C27.  Reading a file in text mode and encoding the text again (line 15 of
  \<open>cpcfg.py\<close>) raises \<open>UnicodeDecodeError\<close> on an ill-formed file and otherwise
  gives the file's bytes with \<open>\r\n\<close> and lone \<open>\r\<close> turned into \<open>\n\<close>: what is
  hashed is not the content of the file.
\<close>

theorem py_read_text_spec:
  "py_read_text bs =
     (case utf8_decode bs of None \<Rightarrow> Inl UnicodeDecodeError | Some _ \<Rightarrow> Inr (bytes_nl bs))"
  by (cases "utf8_decode bs")
     (simp_all add: py_read_text_def py_decode_text_def py_read_text_bytes_nl)

end
