(* ===== verification/Cpcfg.thy ===== *)
theory Cpcfg
  imports PyIO Utf8
begin

text \<open>
  The configuration staging utility \<open>src/bertos/cpcfg.py\<close> (Python 3): it creates
  \<open>hw\<close> and \<open>cfg\<close> directories beside the output header \<open>outname\<close>, copies the
  \<open>hw/*.h\<close> and \<open>cfg/*.h\<close> headers of the application into them with
  \<open>shutil.copy2\<close>, feeds the text of each copied header into a SHA-256 object, and
  compares the line \<open>/* cfg+hw SHA256=<hex> */\<close> with the content of \<open>outname\<close>,
  rewriting it when they differ.

  Two inputs of a run are not in the file system model: the order in which the
  operating system lists a directory (\<open>listing\<close>, the names \<open>glob\<close> sees, in
  \<open>os.scandir\<close> order), and the hex digest of the hashed bytes (\<open>hashlib.sha256\<close>,
  library code, a parameter \<open>sha\<close> of the model).  The theorems hold for every
  listing that lists the directory and for every digest function, or for every
  one that returns hexadecimal digits.
\<close>

type_synonym listing = "path \<Rightarrow> string list"

definition listing_ok :: "fs \<Rightarrow> listing \<Rightarrow> path \<Rightarrow> bool" where
  "listing_ok s ls d \<longleftrightarrow>
     distinct (ls d) \<and>
     (\<forall>n. n \<in> set (ls d) \<longleftrightarrow>
            n \<noteq> [] \<and> CHR ''/'' \<notin> set n \<and>
            (files s (py_join d n) \<noteq> None \<or> py_join d n \<in> dirs s))"

definition hexdigest_fn :: "(bytes \<Rightarrow> string) \<Rightarrow> bool" where
  "hexdigest_fn sha \<longleftrightarrow> (\<forall>m. set (sha m) \<subseteq> set ''0123456789abcdef'')"

text \<open>\<open>glob.glob(os.path.join(d, "*.h"))\<close>: the entries of \<open>d\<close> whose name ends with
  \<open>.h\<close> and does not start with a dot, joined to \<open>d\<close>.\<close>

definition glob_h :: "string \<Rightarrow> bool" where
  "glob_h n \<longleftrightarrow> 2 \<le> length n \<and> hd n \<noteq> CHR ''.'' \<and> drop (length n - 2) n = ''.h''"

definition py_glob_h :: "listing \<Rightarrow> path \<Rightarrow> path list" where
  "py_glob_h ls d = map (py_join d) (filter glob_h (ls d))"

text \<open>\<open>os.mkdir(p)\<close>, and the \<open>try: ... except FileExistsError: pass\<close> around it.\<close>

definition py_mkdir :: "fs \<Rightarrow> path \<Rightarrow> py_exc + fs" where
  "py_mkdir s p =
     (if p \<in> dirs s \<or> files s p \<noteq> None then Inl (FileExistsError p)
      else if p = [] then Inl (FileNotFoundError p)
      else if files s (py_dirname p) \<noteq> None then Inl (IOError p)
      else if \<not> parent_ok s p then Inl (FileNotFoundError p)
      else if p \<in> unwritable s then Inl (IOError p)
      else Inr (s\<lparr>dirs := insert p (dirs s)\<rparr>))"

definition mkdir_exist_ok :: "fs \<Rightarrow> path \<Rightarrow> py_exc + fs" where
  "mkdir_exist_ok s p =
     (case py_mkdir s p of
        Inl (FileExistsError _) \<Rightarrow> Inr s
      | r \<Rightarrow> r)"

text \<open>
  \<open>shutil.copy2(src, dst)\<close>: into the directory \<open>dst\<close> under the name of \<open>src\<close>,
  or onto the path \<open>dst\<close> when it is not a directory; \<open>SameFileError\<close> when the
  target is the source; the content is copied byte for byte (the metadata
  \<open>copy2\<close> also copies is not modelled).
\<close>

definition copy2_target :: "fs \<Rightarrow> path \<Rightarrow> path \<Rightarrow> path" where
  "copy2_target s src dst = (if dst \<in> dirs s then py_join dst (py_basename src) else dst)"

definition py_copy2 :: "fs \<Rightarrow> path \<Rightarrow> path \<Rightarrow> py_exc + fs" where
  "py_copy2 s src dst =
     (let target = copy2_target s src dst
      in if target = src then Inl (SameFileError src)
         else exc_bind (open_read s src) (\<lambda>d.
                if can_create s target then Inr (s\<lparr>files := (files s)(target \<mapsto> d)\<rparr>)
                else Inl (IOError target)))"

text \<open>
  \<open>copyfiles(files, dest, sha)\<close>, lines 10--16: for each file, copy it, then read
  its text and feed its UTF-8 encoding to the hash; the bytes fed so far are \<open>m\<close>.
  An exception ends the loop with the copies made so far.
\<close>

fun copyfiles :: "path list \<Rightarrow> path \<Rightarrow> fs \<Rightarrow> bytes \<Rightarrow> fs \<times> (py_exc + bytes)" where
  "copyfiles [] dest s m = (s, Inr m)"
| "copyfiles (f # fl) dest s m =
     (case py_copy2 s f dest of
        Inl e \<Rightarrow> (s, Inl e)
      | Inr s' \<Rightarrow>
          (case exc_bind (open_read s' f) py_read_text of
             Inl e \<Rightarrow> (s', Inl e)
           | Inr t \<Rightarrow> copyfiles fl dest s' (m @ t)))"

text \<open>Lines 18--44: the paths, the globs, the two directories and the copies.\<close>

definition cp_stage :: "listing \<Rightarrow> path \<Rightarrow> path \<Rightarrow> fs \<Rightarrow> fs \<times> (py_exc + bytes)" where
  "cp_stage ls app_dir outname s =
     (let build_dir = py_dirname outname;
          hw_files = py_glob_h ls (py_join app_dir ''hw'');
          cfg_files = py_glob_h ls (py_join app_dir ''cfg'');
          hw_dir = py_join build_dir ''hw'';
          cfg_dir = py_join build_dir ''cfg''
      in case mkdir_exist_ok s hw_dir of
           Inl e \<Rightarrow> (s, Inl e)
         | Inr s1 \<Rightarrow>
             (case mkdir_exist_ok s1 cfg_dir of
                Inl e \<Rightarrow> (s1, Inl e)
              | Inr s2 \<Rightarrow>
                  (case copyfiles hw_files hw_dir s2 [] of
                     (s3, Inl e) \<Rightarrow> (s3, Inl e)
                   | (s3, Inr m) \<Rightarrow> copyfiles cfg_files cfg_dir s3 m)))"

definition cp_sentinel :: "string \<Rightarrow> string" where
  "cp_sentinel hex = ''/* cfg+hw SHA256='' @ hex @ '' */'' @ [CHR 0x0A]"

text \<open>
  \<open>open(outname, "r+")\<close>, and \<open>open(outname, "w+")\<close> when it raises
  \<open>FileNotFoundError\<close> (lines 47--50): the file system after the open and the
  bytes \<open>read()\<close> will decode.
\<close>

definition open_rplus :: "fs \<Rightarrow> path \<Rightarrow> py_exc + bytes" where
  "open_rplus s p =
     (if p \<in> dirs s then Inl (IOError p)
      else case files s p of
             None \<Rightarrow> Inl (FileNotFoundError p)
           | Some d \<Rightarrow> if p \<in> unreadable s \<or> p \<in> unwritable s then Inl (IOError p) else Inr d)"

definition cp_open :: "fs \<Rightarrow> path \<Rightarrow> py_exc + fs \<times> bytes" where
  "cp_open s p =
     (case open_rplus s p of
        Inr d \<Rightarrow> Inr (s, d)
      | Inl (FileNotFoundError _) \<Rightarrow>
          (case open_write s p of
             Inl e \<Rightarrow> Inl e
           | Inr (s', _) \<Rightarrow> Inr (s', []))
      | Inl e \<Rightarrow> Inl e)"

text \<open>Lines 45--62: the sentinel, its comparison and the rewrite.\<close>

definition cp_finish ::
  "(bytes \<Rightarrow> string) \<Rightarrow> path \<Rightarrow> path \<Rightarrow> fs \<Rightarrow> bytes \<Rightarrow> fs \<times> string list \<times> status" where
  "cp_finish sha app_dir outname s m =
     (let hex = sha m;
          new_sha = cp_sentinel hex
      in case cp_open s outname of
           Inl e \<Rightarrow> (s, [], Uncaught e)
         | Inr (s1, old) \<Rightarrow>
             (case py_decode_text old of
                Inl e \<Rightarrow> (s1, [], Uncaught e)
              | Inr old_sha \<Rightarrow>
                  (let msg = ''Checking hw+cfg from '' @ app_dir @ ''...''
                   in if old_sha \<noteq> py_text new_sha
                      then (s1\<lparr>files := (files s1)(outname \<mapsto> utf8_encode (py_text new_sha))\<rparr>,
                            [msg, ''Copying files, saving new SHA256: '' @ hex], Exited 0)
                      else (s1, [msg, ''No need to copy hw+cfg from '' @ app_dir], Exited 0))))"

definition cpcfg ::
  "(bytes \<Rightarrow> string) \<Rightarrow> listing \<Rightarrow> string list \<Rightarrow> fs \<Rightarrow> fs \<times> string list \<times> status" where
  "cpcfg sha ls argv s =
     (if length argv < 2 then (s, [], Uncaught IndexError)
      else if length argv < 3 then (s, [], Uncaught IndexError)
      else case cp_stage ls (argv ! 1) (argv ! 2) s of
             (s', Inl e) \<Rightarrow> (s', [], Uncaught e)
           | (s', Inr m) \<Rightarrow> cp_finish sha (argv ! 1) (argv ! 2) s' m)"

text \<open>Two file systems that a text-mode reader cannot tell apart: the same directories and
  permissions, the same paths holding files, and files whose text reads the same.\<close>

definition text_eq :: "fs \<Rightarrow> fs \<Rightarrow> bool" where
  "text_eq s t \<longleftrightarrow> dirs s = dirs t \<and> unreadable s = unreadable t \<and> unwritable s = unwritable t
     \<and> (\<forall>p. rel_option (\<lambda>d e. py_decode_text d = py_decode_text e) (files s p) (files t p))"

subsection \<open>Demonstration inputs\<close>

text \<open>A digest that reads the hashed bytes (each byte below \<open>0x40\<close> gives \<open>0\<close>, the others
  \<open>1\<close>), an application with one header in \<open>hw\<close> and one in \<open>cfg\<close>, and file
  systems for the runs below.\<close>

definition demo_sha :: "bytes \<Rightarrow> string" where
  "demo_sha m = map (\<lambda>b. if b < 0x40 then CHR ''0'' else CHR ''1'') m"

definition demo_ls :: listing where
  "demo_ls d = (if d = ''app/hw'' then [''hw_a.h''] else if d = ''app/cfg'' then [''cfg_b.h''] else [])"

definition cp_argv :: "string list" where
  "cp_argv = [''cpcfg.py'', ''app'', ''build/cfg_hash.h'']"

definition hw_a_lf :: bytes where
  "hw_a_lf = bytes_of (''#define A 1'' @ [CHR 0x0A])"

definition hw_a_crlf :: bytes where
  "hw_a_crlf = bytes_of (''#define A 1'' @ [CHR 0x0D, CHR 0x0A])"

definition cfg_b :: bytes where
  "cfg_b = bytes_of (''#define B 2'' @ [CHR 0x0A])"

definition demo_cp_fs :: fs where
  "demo_cp_fs = \<lparr>files = [''app/hw/hw_a.h'' \<mapsto> hw_a_lf, ''app/cfg/cfg_b.h'' \<mapsto> cfg_b],
                  dirs = {''app'', ''app/hw'', ''app/cfg'', ''build''}, unreadable = {}, unwritable = {}\<rparr>"

definition demo_crlf_fs :: fs where
  "demo_crlf_fs = \<lparr>files = [''app/hw/hw_a.h'' \<mapsto> hw_a_crlf, ''app/cfg/cfg_b.h'' \<mapsto> cfg_b,
                             ''build/hw/hw_a.h'' \<mapsto> hw_a_lf, ''build/cfg/cfg_b.h'' \<mapsto> cfg_b,
                             ''build/cfg_hash.h'' \<mapsto> bytes_of (cp_sentinel (demo_sha (hw_a_lf @ cfg_b)))],
                    dirs = {''app'', ''app/hw'', ''app/cfg'', ''build'', ''build/hw'', ''build/cfg''},
                    unreadable = {}, unwritable = {}\<rparr>"

definition demo_hwfile_fs :: fs where
  "demo_hwfile_fs = demo_cp_fs\<lparr>files := (files demo_cp_fs)(''build/hw'' \<mapsto> bytes_of ''old'')\<rparr>"

definition demo_badutf_fs :: fs where
  "demo_badutf_fs = demo_cp_fs\<lparr>files := (files demo_cp_fs)(''app/cfg/cfg_b.h'' \<mapsto> [0xC3, 0x28, 0x0A])\<rparr>"

definition demo_lf_fs :: fs where
  "demo_lf_fs = demo_crlf_fs\<lparr>files := (files demo_crlf_fs)(''app/hw/hw_a.h'' \<mapsto> hw_a_lf)\<rparr>"

declare glob_h_def [py_eval] py_glob_h_def [py_eval] py_mkdir_def [py_eval]
  mkdir_exist_ok_def [py_eval] copy2_target_def [py_eval] py_copy2_def [py_eval] cp_stage_def [py_eval]
  cp_sentinel_def [py_eval] open_rplus_def [py_eval] cp_open_def [py_eval]
  cp_finish_def [py_eval]

lemmas cp_eval = cp_argv_def demo_ls_def demo_sha_def hw_a_lf_def hw_a_crlf_def cfg_b_def
  py_eval char_of_def bit_0 Let_def


subsection \<open>Paths and the finish step\<close>

lemma py_join_plain:
  "n \<noteq> [] \<Longrightarrow> CHR ''/'' \<notin> set n \<Longrightarrow> d \<noteq> [] \<Longrightarrow> last d \<noteq> CHR ''/'' \<Longrightarrow> py_join d n = d @ ''/'' @ n"
  by (cases n) (auto simp: py_join_def)

lemma py_basename_join:
  assumes "n \<noteq> []" "CHR ''/'' \<notin> set n" "d \<noteq> []" "last d \<noteq> CHR ''/''"
  shows "py_basename (py_join d n) = n"
proof -
  have "rev (py_join d n) = rev n @ CHR ''/'' # rev d"
    using py_join_plain [OF assms] by simp
  moreover have "takeWhile (\<lambda>c. c \<noteq> CHR ''/'') (rev n @ CHR ''/'' # rev d) = rev n"
    using assms(2) by (subst takeWhile_append2) auto
  ultimately show ?thesis by (simp add: py_basename_def)
qed

lemma take_prefix_len: "take (length xs) (xs @ ys) = xs"
  by simp

lemma py_dirname_join:
  assumes "n \<noteq> []" "CHR ''/'' \<notin> set n" "d \<noteq> []" "last d \<noteq> CHR ''/''"
  shows "py_dirname (py_join d n) = d"
proof -
  have j: "py_join d n = d @ ''/'' @ n"
    using py_join_plain [OF assms] .
  have b: "py_basename (py_join d n) = n"
    by (rule py_basename_join [OF assms])
  have k: "length (py_join d n) - length (py_basename (py_join d n)) = length (d @ ''/'')"
    unfolding b by (simp add: j)
  have p: "py_join d n = (d @ ''/'') @ n"
    unfolding j by simp
  have t: "take (length (py_join d n) - length (py_basename (py_join d n))) (py_join d n) = d @ ''/''"
    unfolding k by (subst p) (rule take_prefix_len)
  have nl: "\<not> list_all (\<lambda>c. c = CHR ''/'') (d @ ''/'')"
  proof
    assume "list_all (\<lambda>c. c = CHR ''/'') (d @ ''/'')"
    then have "list_all (\<lambda>c. c = CHR ''/'') d" by simp
    then show False using assms(3,4) last_in_set [of d] by (simp add: list_all_iff)
  qed
  have "dropWhile (\<lambda>c. c = CHR ''/'') (rev d) = rev d"
    using assms(3,4) by (cases "rev d") (auto simp: hd_rev [symmetric] last_rev)
  then have r: "rev (dropWhile (\<lambda>c. c = CHR ''/'') (rev (d @ ''/''))) = d"
    by simp
  show ?thesis
    using t nl r by (simp add: py_dirname_def Let_def)
qed

lemma py_join_inj:
  "CHR ''/'' \<notin> set n \<Longrightarrow> CHR ''/'' \<notin> set n' \<Longrightarrow> n \<noteq> [] \<Longrightarrow> n' \<noteq> [] \<Longrightarrow>
   py_join d n = py_join d n' \<Longrightarrow> n = n'"
  by (cases n; cases n') (auto simp: py_join_def split: if_splits)

lemma cp_sentinel_no_cr:
  "hexdigest_fn sha \<Longrightarrow> 13 \<notin> set (py_text (cp_sentinel (sha m)))"
proof -
  assume "hexdigest_fn sha"
  then have "set (sha m) \<subseteq> set ''0123456789abcdef''" by (simp add: hexdigest_fn_def)
  then have "CHR 0x0D \<notin> set (sha m)" by auto
  then show ?thesis by (auto simp: py_text_def cp_sentinel_def dest: of_char_eq_13)
qed

lemma cp_open_frame:
  "cp_open s p = Inr (s1, d) \<Longrightarrow> s1 = s\<lparr>files := (files s)(p := files s1 p)\<rparr>"
  by (auto simp: cp_open_def open_write_def split: sum.splits py_exc.splits if_splits)

lemma files_upd_frame:
  "s1 = s\<lparr>files := (files s)(p := v)\<rparr> \<Longrightarrow>
   s1\<lparr>files := (files s1)(p := w)\<rparr> = s\<lparr>files := (files s)(p := w)\<rparr>"
  by simp

lemma cp_finish_frame:
  assumes "cp_finish sha a p s m = (s', out, st)"
  shows "s' = s\<lparr>files := (files s)(p := files s' p)\<rparr>"
proof (cases "cp_open s p")
  case (Inl e)
  then show ?thesis using assms by (simp add: cp_finish_def Let_def)
next
  case (Inr r)
  obtain s1 d where r: "r = (s1, d)" by (cases r)
  have s1: "s1 = s\<lparr>files := (files s)(p := files s1 p)\<rparr>"
    using cp_open_frame Inr r by blast
  show ?thesis
  proof (cases "py_decode_text d")
    case (Inl e)
    then show ?thesis using assms Inr r s1 by (simp add: cp_finish_def Let_def)
  next
    case (Inr old)
    let ?new = "utf8_encode (py_text (cp_sentinel (sha m)))"
    show ?thesis
    proof (cases "old = py_text (cp_sentinel (sha m))")
      case True
      then show ?thesis using assms \<open>cp_open s p = Inr r\<close> r s1 Inr by (simp add: cp_finish_def Let_def)
    next
      case False
      then have "s' = s1\<lparr>files := (files s1)(p := Some ?new)\<rparr>"
        using assms \<open>cp_open s p = Inr r\<close> r Inr by (simp add: cp_finish_def Let_def)
      then show ?thesis using files_upd_frame [OF s1, of "Some ?new"] by simp
    qed
  qed
qed

lemma cp_finish_ok:
  assumes "cp_finish sha a p s m = (s', out, Exited 0)"
  shows "\<exists>s1 d old. cp_open s p = Inr (s1, d) \<and> py_decode_text d = Inr old
         \<and> (if old \<noteq> py_text (cp_sentinel (sha m))
            then s' = s1\<lparr>files := (files s1)(p \<mapsto> utf8_encode (py_text (cp_sentinel (sha m))))\<rparr>
                 \<and> out = [''Checking hw+cfg from '' @ a @ ''...'', ''Copying files, saving new SHA256: '' @ sha m]
            else s' = s1 \<and> out = [''Checking hw+cfg from '' @ a @ ''...'', ''No need to copy hw+cfg from '' @ a])"
  using assms
  by (auto simp: cp_finish_def Let_def split: sum.splits if_splits)

lemma cpcfg_staged:
  "2 < length argv \<Longrightarrow> cpcfg sha ls argv s = (s', out, Exited 0) \<Longrightarrow>
   \<exists>s4 m. cp_stage ls (argv ! 1) (argv ! 2) s = (s4, Inr m) \<and> cp_finish sha (argv ! 1) (argv ! 2) s4 m = (s', out, Exited 0)"
  by (auto simp: cpcfg_def split: prod.splits sum.splits)
lemma cp_open_ok:
  assumes "cp_open s p = Inr (s1, d)"
  shows "files s1 p = Some d \<and> p \<notin> dirs s1 \<and> p \<notin> unwritable s1 \<and> unreadable s1 = unreadable s"
  using assms
  by (auto simp: cp_open_def open_rplus_def open_write_def can_create_def
           split: sum.splits py_exc.splits if_splits option.splits)

lemma cp_finish_file:
  assumes "hexdigest_fn sha" "cp_finish sha a p s m = (s', out, Exited 0)"
  shows "\<exists>d. files s' p = Some d \<and> py_decode_text d = Inr (py_text (cp_sentinel (sha m)))
         \<and> p \<notin> dirs s' \<and> p \<notin> unwritable s' \<and> unreadable s' = unreadable s"
proof -
  obtain s1 d old where o: "cp_open s p = Inr (s1, d)" and dec: "py_decode_text d = Inr old"
    and r: "if old \<noteq> py_text (cp_sentinel (sha m))
            then s' = s1\<lparr>files := (files s1)(p \<mapsto> utf8_encode (py_text (cp_sentinel (sha m))))\<rparr>
                 \<and> out = [''Checking hw+cfg from '' @ a @ ''...'', ''Copying files, saving new SHA256: '' @ sha m]
            else s' = s1 \<and> out = [''Checking hw+cfg from '' @ a @ ''...'', ''No need to copy hw+cfg from '' @ a]"
    using cp_finish_ok [OF assms(2)] by blast
  have enc: "py_decode_text (utf8_encode (py_text (cp_sentinel (sha m)))) = Inr (py_text (cp_sentinel (sha m)))"
    by (rule py_decode_text_encode [OF cp_sentinel_no_cr [OF assms(1)] py_text_scalar])
  show ?thesis
    using cp_open_ok [OF o] dec r enc by (auto split: if_splits)
qed

lemma demo_sha_hex: "hexdigest_fn demo_sha"
  by (auto simp: hexdigest_fn_def demo_sha_def)

lemma copy2_into_dir:
  assumes "dest \<in> dirs s" "py_join dest (py_basename f) \<noteq> f" "open_read s f = Inr d"
    "can_create s (py_join dest (py_basename f))"
  shows "py_copy2 s f dest = Inr (s\<lparr>files := (files s)(py_join dest (py_basename f) \<mapsto> d)\<rparr>)"
  using assms by (simp add: py_copy2_def copy2_target_def Let_def)


subsection \<open>Text-mode indistinguishability\<close>

lemma text_eq_refl: "text_eq s s"
  by (simp add: text_eq_def option.rel_refl)

lemma text_eq_upd:
  "text_eq s t \<Longrightarrow> py_decode_text d = py_decode_text e \<Longrightarrow>
   text_eq (s\<lparr>files := (files s)(p \<mapsto> d)\<rparr>) (t\<lparr>files := (files t)(p \<mapsto> e)\<rparr>)"
  by (simp add: text_eq_def)

lemma text_eq_dirs:
  "text_eq s t \<Longrightarrow> text_eq (s\<lparr>dirs := insert p (dirs s)\<rparr>) (t\<lparr>dirs := insert p (dirs t)\<rparr>)"
  by (simp add: text_eq_def)

lemma text_eq_files_None:
  "text_eq s t \<Longrightarrow> files s p = None \<longleftrightarrow> files t p = None"
  unfolding text_eq_def by (metis option.rel_distinct(1,2) option.exhaust)

lemma text_eq_can_create: "text_eq s t \<Longrightarrow> can_create s p = can_create t p"
  by (simp add: text_eq_def can_create_def parent_ok_def)

lemma text_eq_mkdir:
  "text_eq s t \<Longrightarrow> rel_sum (=) text_eq (mkdir_exist_ok s p) (mkdir_exist_ok t p)"
  using text_eq_files_None [of s t p] text_eq_files_None [of s t "py_dirname p"]
  by (auto simp: mkdir_exist_ok_def py_mkdir_def parent_ok_def text_eq_def split: py_exc.split)

lemma text_eq_open_read:
  "text_eq s t \<Longrightarrow>
   rel_sum (=) (\<lambda>d e. py_decode_text d = py_decode_text e) (open_read s p) (open_read t p)"
  unfolding text_eq_def open_read_def
  by (auto elim!: allE [of _ p] option.rel_cases split: option.split)

lemma text_eq_copy2:
  assumes "text_eq s t"
  shows "rel_sum (=) text_eq (py_copy2 s f dst) (py_copy2 t f dst)"
proof -
  have tg: "copy2_target s f dst = copy2_target t f dst"
    using assms by (simp add: text_eq_def copy2_target_def)
  show ?thesis
    using text_eq_open_read [OF assms, of f] text_eq_can_create [OF assms] tg
    by (auto simp: py_copy2_def Let_def elim!: rel_sum.cases intro: text_eq_upd [OF assms])
qed


lemma text_eq_copyfiles:
  "text_eq s t \<Longrightarrow>
   text_eq (fst (copyfiles fl dest s m)) (fst (copyfiles fl dest t m))
   \<and> snd (copyfiles fl dest s m) = snd (copyfiles fl dest t m)"
proof (induction fl arbitrary: s t m)
  case Nil
  then show ?case by simp
next
  case (Cons f fl)
  from text_eq_copy2 [OF Cons.prems, of f dest] show ?case
  proof (cases rule: rel_sum.cases)
    case (1 e e')
    then show ?thesis using Cons.prems by simp
  next
    case (2 s' t')
    have "exc_bind (open_read s' f) py_read_text = exc_bind (open_read t' f) py_read_text"
      using text_eq_open_read [OF 2(3), of f] by (auto elim!: rel_sum.cases simp: py_read_text_def)
    then show ?thesis
      using Cons.IH [OF 2(3)] 2(1,2,3) by (simp split: sum.split)
  qed
qed

lemma text_eq_stage:
  assumes "text_eq s t"
  shows "text_eq (fst (cp_stage ls a o' s)) (fst (cp_stage ls a o' t))
         \<and> snd (cp_stage ls a o' s) = snd (cp_stage ls a o' t)"
proof -
  let ?hw = "py_join (py_dirname o') ''hw''" and ?cfg = "py_join (py_dirname o') ''cfg''"
  let ?hf = "py_glob_h ls (py_join a ''hw'')" and ?cf = "py_glob_h ls (py_join a ''cfg'')"
  from text_eq_mkdir [OF assms, of ?hw] show ?thesis
  proof (cases rule: rel_sum.cases)
    case (1 e e')
    then show ?thesis using assms by (simp add: cp_stage_def Let_def)
  next
    case Inr1: (2 s1 t1)
    from text_eq_mkdir [OF Inr1(3), of ?cfg] show ?thesis
    proof (cases rule: rel_sum.cases)
      case (1 e e')
      then show ?thesis using Inr1 by (simp add: cp_stage_def Let_def)
    next
      case Inr2: (2 s2 t2)
      obtain s3 r where a: "copyfiles ?hf ?hw s2 [] = (s3, r)" by fastforce
      obtain t3 r' where b: "copyfiles ?hf ?hw t2 [] = (t3, r')" by fastforce
      have h: "text_eq s3 t3" "r' = r"
        using text_eq_copyfiles [OF Inr2(3), of ?hf ?hw "[]"] a b by auto
      show ?thesis
      proof (cases r)
        case (Inl e)
        then show ?thesis
          using Inr1 Inr2 h a b by (simp add: cp_stage_def Let_def)
      next
        case (Inr m)
        then show ?thesis
          using Inr1 Inr2 h a b text_eq_copyfiles [OF h(1), of ?cf ?cfg m]
          by (simp add: cp_stage_def Let_def)
      qed
    qed
  qed
qed

lemma text_eq_cp_open:
  assumes "text_eq s t"
  shows "rel_sum (=) (\<lambda>(s1, d) (t1, e). text_eq s1 t1 \<and> py_decode_text d = py_decode_text e)
           (cp_open s p) (cp_open t p)"
proof -
  have r: "rel_sum (=) (\<lambda>d e. py_decode_text d = py_decode_text e) (open_rplus s p) (open_rplus t p)"
    using assms unfolding text_eq_def open_rplus_def
    by (auto elim!: allE [of _ p] option.rel_cases split: option.split)
  have w: "can_create s p = can_create t p"
    by (rule text_eq_can_create [OF assms])
  from r show ?thesis
  proof (cases rule: rel_sum.cases)
    case (1 e e')
    then show ?thesis
      using w assms by (auto simp: cp_open_def open_write_def intro: text_eq_upd split: py_exc.split)
  next
    case (2 d e)
    then show ?thesis using assms by (simp add: cp_open_def)
  qed
qed

lemma text_eq_cp_finish:
  assumes "text_eq s t"
  shows "text_eq (fst (cp_finish sha a p s m)) (fst (cp_finish sha a p t m))
         \<and> snd (cp_finish sha a p s m) = snd (cp_finish sha a p t m)"
  using text_eq_cp_open [OF assms, of p]
proof (cases rule: rel_sum.cases)
  case (1 e e')
  then show ?thesis using assms by (simp add: cp_finish_def)
next
  case (2 x y)
  obtain s1 d where x: "x = (s1, d)" by (cases x)
  obtain t1 e where y: "y = (t1, e)" by (cases y)
  have r: "text_eq s1 t1" "py_decode_text d = py_decode_text e"
    using 2(3) x y by auto
  show ?thesis
    using 2(1,2) x y r text_eq_upd [OF r(1) refl]
    by (simp add: cp_finish_def Let_def split: sum.split)
qed

subsection \<open>The copy loop and the staging\<close>

lemma py_copy2_Inr:
  "py_copy2 s f dst = Inr s' \<Longrightarrow>
   \<exists>d. open_read s f = Inr d \<and> copy2_target s f dst \<noteq> f \<and> can_create s (copy2_target s f dst)
       \<and> s' = s\<lparr>files := (files s)(copy2_target s f dst \<mapsto> d)\<rparr>"
  by (auto simp: py_copy2_def Let_def exc_bind_eq_Inr split: if_splits)

lemma py_copy2_Inl: "py_copy2 s f dst = Inl e \<Longrightarrow> e \<noteq> UnicodeDecodeError"
  by (auto simp: py_copy2_def Let_def open_read_def split: if_splits option.splits)

lemma open_read_Inr: "open_read s f = Inr d \<Longrightarrow> files s f = Some d"
  by (simp add: open_read_def split: if_splits option.splits)

lemma copyfiles_frame:
  "copyfiles fl dest s m = (s', r) \<Longrightarrow>
   s' = s\<lparr>files := files s'\<rparr> \<and> (\<forall>q. files s' q \<noteq> files s q \<longrightarrow> (\<exists>f\<in>set fl. q = copy2_target s f dest))"
proof (induction fl arbitrary: s m)
  case Nil
  then show ?case by simp
next
  case (Cons f fl)
  show ?case
  proof (cases "py_copy2 s f dest")
    case (Inl e)
    then show ?thesis using Cons.prems by simp
  next
    case (Inr s1)
    then obtain d where s1: "s1 = s\<lparr>files := (files s)(copy2_target s f dest \<mapsto> d)\<rparr>"
      using py_copy2_Inr by blast
    have tg: "copy2_target s1 g dest = copy2_target s g dest" for g
      by (simp add: s1 copy2_target_def)
    show ?thesis
    proof (cases "exc_bind (open_read s1 f) py_read_text")
      case (Inl e)
      then show ?thesis using Cons.prems Inr s1 by (auto simp: fun_upd_def)
    next
      case (Inr t)
      then have "copyfiles fl dest s1 (m @ t) = (s', r)"
        using Cons.prems \<open>py_copy2 s f dest = Inr s1\<close> by simp
      from Cons.IH [OF this] have ih: "s' = s1\<lparr>files := files s'\<rparr>"
        "\<forall>q. files s' q \<noteq> files s1 q \<longrightarrow> (\<exists>g\<in>set fl. q = copy2_target s1 g dest)"
        by blast+
      show ?thesis
      proof (intro conjI allI impI)
        show "s' = s\<lparr>files := files s'\<rparr>"
          using ih(1) s1 by simp
        fix q
        assume q: "files s' q \<noteq> files s q"
        show "\<exists>g\<in>set (f # fl). q = copy2_target s g dest"
        proof (cases "q = copy2_target s f dest")
          case False
          then have "files s1 q = files s q" by (simp add: s1)
          then show ?thesis using ih(2) q tg by auto
        qed simp
      qed
    qed
  qed
qed

lemma copyfiles_onto_file:
  assumes "p \<notin> dirs s" and "copyfiles fl p s m = (s', Inr m')" and "fl \<noteq> []"
  shows "s' = s\<lparr>files := (files s)(p := files s (last fl))\<rparr> \<and> files s (last fl) \<noteq> None \<and> p \<notin> set fl"
  using assms
proof (induction fl arbitrary: s m)
  case Nil
  then show ?case by simp
next
  case (Cons f fl)
  obtain s1 where c: "py_copy2 s f p = Inr s1"
    using Cons.prems(2) by (cases "py_copy2 s f p") auto
  then obtain d where d: "open_read s f = Inr d" and fp: "p \<noteq> f"
    and s1: "s1 = s\<lparr>files := (files s)(p \<mapsto> d)\<rparr>"
    using py_copy2_Inr [OF c] Cons.prems(1) by (auto simp: copy2_target_def)
  have fd: "files s f = Some d" by (rule open_read_Inr [OF d])
  obtain t where "exc_bind (open_read s1 f) py_read_text = Inr t"
    and rest: "copyfiles fl p s1 (m @ t) = (s', Inr m')"
    using Cons.prems(2) c by (cases "exc_bind (open_read s1 f) py_read_text") auto
  show ?case
  proof (cases "fl = []")
    case True
    then show ?thesis using rest s1 fd fp by (auto simp: fun_upd_def)
  next
    case False
    have "p \<notin> dirs s1" using Cons.prems(1) s1 by simp
    from Cons.IH [OF this rest False] have
      ih: "s' = s1\<lparr>files := (files s1)(p := files s1 (last fl))\<rparr>" "files s1 (last fl) \<noteq> None" "p \<notin> set fl"
      by blast+
    have "last fl \<noteq> p" using ih(3) False by auto
    then have l: "files s1 (last fl) = files s (last fl)" by (simp add: s1)
    have "s' = s\<lparr>files := ((files s)(p \<mapsto> d))(p := files s (last fl))\<rparr>"
      using ih(1) l by (simp add: s1)
    then have "s' = s\<lparr>files := (files s)(p := files s (last fl))\<rparr>"
      by simp
    moreover have lst: "last (f # fl) = last fl" using False by simp
    ultimately show ?thesis unfolding lst using ih(2,3) l fp by (simp add: fun_upd_def)
  qed
qed

lemma copyfiles_decode_error:
  "copyfiles fl dest s m = (s', Inl UnicodeDecodeError) \<Longrightarrow>
   \<exists>f\<in>set fl. \<exists>d. files s' (copy2_target s' f dest) = Some d \<and> utf8_decode d = None"
proof (induction fl arbitrary: s m)
  case Nil
  then show ?case by simp
next
  case (Cons f fl)
  show ?case
  proof (cases "py_copy2 s f dest")
    case (Inl e)
    then show ?thesis using Cons.prems py_copy2_Inl by fastforce
  next
    case (Inr s1)
    then obtain d where d: "open_read s f = Inr d" and ne: "copy2_target s f dest \<noteq> f"
      and s1: "s1 = s\<lparr>files := (files s)(copy2_target s f dest \<mapsto> d)\<rparr>"
      using py_copy2_Inr by blast
    have tg: "copy2_target s1 f dest = copy2_target s f dest"
      by (simp add: s1 copy2_target_def)
    have r1: "open_read s1 f = Inr d"
      using d ne s1 open_read_upd_other by metis
    show ?thesis
    proof (cases "py_read_text d")
      case (Inl e)
      then have "s' = s1" "e = UnicodeDecodeError"
        using Cons.prems Inr r1 by auto
      moreover have "utf8_decode d = None"
        using Inl by (auto simp: py_read_text_def py_decode_text_def split: option.splits)
      ultimately show ?thesis
        using s1 tg by auto
    next
      case (Inr t)
      then have "copyfiles fl dest s1 (m @ t) = (s', Inl UnicodeDecodeError)"
        using Cons.prems \<open>py_copy2 s f dest = Inr s1\<close> r1 by simp
      from Cons.IH [OF this] show ?thesis by auto
    qed
  qed
qed

lemma mkdir_exist_ok_Inr:
  "mkdir_exist_ok s p = Inr s' \<Longrightarrow> s' = s \<or> s' = s\<lparr>dirs := insert p (dirs s)\<rparr>"
  by (auto simp: mkdir_exist_ok_def py_mkdir_def split: if_splits sum.splits py_exc.splits)

lemma mkdir_exist_ok_Inl:
  "mkdir_exist_ok s p = Inl e \<Longrightarrow> e \<noteq> UnicodeDecodeError"
  by (auto simp: mkdir_exist_ok_def py_mkdir_def split: if_splits sum.splits py_exc.splits)

lemma glob_h_iff:
  "glob_h n \<longleftrightarrow> (\<exists>pre. n = pre @ ''.h'' \<and> pre \<noteq> [] \<and> hd pre \<noteq> CHR ''.'')"
proof
  assume g: "glob_h n"
  let ?pre = "take (length n - 2) n"
  have n: "n = ?pre @ ''.h''"
    using g by (metis append_take_drop_id glob_h_def)
  have "?pre \<noteq> []"
    using g n by (auto simp: glob_h_def)
  moreover have "hd ?pre = hd n"
    using n calculation by (metis hd_append2)
  ultimately show "\<exists>pre. n = pre @ ''.h'' \<and> pre \<noteq> [] \<and> hd pre \<noteq> CHR ''.''"
    using g n by (auto simp: glob_h_def)
next
  assume "\<exists>pre. n = pre @ ''.h'' \<and> pre \<noteq> [] \<and> hd pre \<noteq> CHR ''.''"
  then show "glob_h n"
    by (auto simp: glob_h_def)
qed

subsection \<open>Properties of a run\<close>

text \<open>
  C30.  A run that exits with status 0 leaves in \<open>outname\<close> (\<open>argv[2]\<close>) a file whose text
  is the sentinel line of the digest of the bytes staged from the headers, for
  every digest function that returns hexadecimal digits.
\<close>

theorem cpcfg_sentinel:
  assumes "hexdigest_fn sha" and "2 < length argv" and "cpcfg sha ls argv s = (s', out, Exited 0)"
  shows "\<exists>s4 m d. cp_stage ls (argv ! 1) (argv ! 2) s = (s4, Inr m) \<and> files s' (argv ! 2) = Some d
           \<and> py_decode_text d = Inr (py_text (cp_sentinel (sha m)))"
proof -
  obtain s4 m where "cp_stage ls (argv ! 1) (argv ! 2) s = (s4, Inr m)"
    and "cp_finish sha (argv ! 1) (argv ! 2) s4 m = (s', out, Exited 0)"
    using cpcfg_staged [OF assms(2,3)] by blast
  then show ?thesis using cp_finish_file [OF assms(1)] by blast
qed


text \<open>
  C31.  The rewrite of \<open>outname\<close> is idempotent: running the finish step again with
  the same hashed bytes on the file system it produced finds the sentinel, prints
  \<open>No need to copy\<close>, changes nothing and exits with 0.
\<close>

theorem cp_finish_rerun:
  assumes "hexdigest_fn sha" and "p \<notin> unreadable s" and "cp_finish sha a p s m = (s', out, Exited 0)"
  shows "cp_finish sha a p s' m =
           (s', [''Checking hw+cfg from '' @ a @ ''...'', ''No need to copy hw+cfg from '' @ a], Exited 0)"
proof -
  obtain d where d: "files s' p = Some d" "py_decode_text d = Inr (py_text (cp_sentinel (sha m)))"
    and p: "p \<notin> dirs s'" "p \<notin> unwritable s'" "unreadable s' = unreadable s"
    using cp_finish_file [OF assms(1,3)] by blast
  then have "cp_open s' p = Inr (s', d)"
    using assms(2) by (simp add: cp_open_def open_rplus_def)
  then show ?thesis using d by (simp add: cp_finish_def Let_def)
qed

text \<open>
  C32.  The copy loop runs to its end: when the destination is a directory, no
  target is one of the sources, every target can be created and every source is
  readable and valid UTF-8, \<open>copyfiles\<close> returns the bytes fed so far followed by
  the newline-translated content of every file, in the order of the list.
\<close>

theorem copyfiles_complete:
  assumes "dest \<in> dirs s"
    and "\<forall>f\<in>set fl. \<forall>g\<in>set fl. py_join dest (py_basename g) \<noteq> f"
    and "\<forall>f\<in>set fl. can_create s (py_join dest (py_basename f))"
    and "\<forall>f\<in>set fl. \<exists>d. open_read s f = Inr d \<and> utf8_decode d \<noteq> None"
  shows "\<exists>s'. copyfiles fl dest s m =
                (s', Inr (m @ concat (map (\<lambda>f. bytes_nl (file_content s f)) fl)))"
  using assms
proof (induction fl arbitrary: s m)
  case Nil
  then show ?case by simp
next
  case (Cons f fl)
  let ?t = "py_join dest (py_basename f)"
  obtain d where d: "open_read s f = Inr d" "utf8_decode d \<noteq> None"
    using Cons.prems(4) by auto
  define s' where "s' = s\<lparr>files := (files s)(?t \<mapsto> d)\<rparr>"
  have ne: "?t \<noteq> g" if "g \<in> set (f # fl)" for g
    using Cons.prems(2) that by auto
  have cp: "py_copy2 s f dest = Inr s'"
    unfolding s'_def
    by (rule copy2_into_dir) (use Cons.prems(1,3) d ne in auto)
  have rd: "open_read s' g = open_read s g" if "g \<in> set (f # fl)" for g
    unfolding s'_def using ne [OF that] by (simp add: open_read_upd_other)
  have fc: "file_content s' g = file_content s g" if "g \<in> set (f # fl)" for g
    unfolding s'_def using ne [OF that] by (simp add: file_content_def)
  obtain cs where cs: "utf8_decode d = Some cs" using d(2) by auto
  have rtx: "exc_bind (open_read s' f) py_read_text = Inr (bytes_nl d)"
    using rd [of f] d(1) cs
    by (simp add: py_read_text_def py_decode_text_def py_read_text_bytes_nl)
  have "\<exists>s''. copyfiles fl dest s' (m @ bytes_nl d) =
          (s'', Inr ((m @ bytes_nl d) @ concat (map (\<lambda>f. bytes_nl (file_content s' f)) fl)))"
    using Cons.prems rd
    by (intro Cons.IH) (auto simp: s'_def)
  moreover have "map (\<lambda>f. bytes_nl (file_content s' f)) fl = map (\<lambda>f. bytes_nl (file_content s f)) fl"
    using fc by simp
  moreover have "file_content s f = d"
    using d(1) by (simp add: open_read_def file_content_def split: if_splits option.splits)
  ultimately show ?case
    using cp rtx by simp
qed

text \<open>
  C33.  After staging, the finish step writes nothing but \<open>outname\<close>: the file system
  at the end of the run is the staged one with only that path changed.
\<close>

theorem cpcfg_stage_kept:
  assumes "2 < length argv" and "cp_stage ls (argv ! 1) (argv ! 2) s = (s4, Inr m)"
  shows "fst (cpcfg sha ls argv s) =
           s4\<lparr>files := (files s4)(argv ! 2 := files (fst (cpcfg sha ls argv s)) (argv ! 2))\<rparr>"
proof -
  have "cpcfg sha ls argv s = cp_finish sha (argv ! 1) (argv ! 2) s4 m"
    using assms by (simp add: cpcfg_def)
  then show ?thesis
    using cp_finish_frame [of sha "argv ! 1" "argv ! 2" s4 m] by (metis prod.collapse)
qed


text \<open>
  C34.  When the directory of \<open>outname\<close> does not exist, \<open>os.mkdir\<close> of its \<open>hw\<close>
  subdirectory raises \<open>FileNotFoundError\<close>, which the \<open>except FileExistsError\<close>
  does not catch: the run ends uncaught with the file system unchanged.
\<close>

theorem cpcfg_no_build_dir:
  assumes "2 < length argv"
    and "py_dirname (argv ! 2) \<noteq> []" and "last (py_dirname (argv ! 2)) \<noteq> CHR ''/''"
    and "py_dirname (argv ! 2) \<notin> dirs s" and "files s (py_dirname (argv ! 2)) = None"
    and "py_join (py_dirname (argv ! 2)) ''hw'' \<notin> dirs s"
    and "files s (py_join (py_dirname (argv ! 2)) ''hw'') = None"
  shows "cpcfg sha ls argv s = (s, [], Uncaught (FileNotFoundError (py_join (py_dirname (argv ! 2)) ''hw'')))"
proof -
  let ?b = "py_dirname (argv ! 2)"
  have "py_dirname (py_join ?b ''hw'') = ?b"
    using assms(2,3) by (simp add: py_dirname_join del: append.simps)
  moreover have "py_join ?b ''hw'' \<noteq> []"
    by (simp add: py_join_def)
  ultimately have "mkdir_exist_ok s (py_join ?b ''hw'') = Inl (FileNotFoundError (py_join ?b ''hw''))"
    using assms(2,4-7) by (simp add: mkdir_exist_ok_def py_mkdir_def parent_ok_def)
  then show ?thesis
    using assms(1) by (simp add: cpcfg_def cp_stage_def Let_def)
qed


text \<open>
  C35.  \<open>glob(d/*.h)\<close> returns, each once, exactly the entries of \<open>d\<close> whose name is
  a non-empty stem that does not start with a dot followed by \<open>.h\<close>, for every listing
  of the directory.
\<close>

theorem py_glob_h_listing:
  assumes "listing_ok s ls d"
  shows "distinct (py_glob_h ls d) \<and>
         (\<forall>p. p \<in> set (py_glob_h ls d) \<longleftrightarrow>
              (\<exists>n pre. p = py_join d n \<and> n = pre @ ''.h'' \<and> pre \<noteq> [] \<and> hd pre \<noteq> CHR ''.''
                   \<and> CHR ''/'' \<notin> set n \<and> (files s p \<noteq> None \<or> p \<in> dirs s)))"
proof
  have names: "n \<in> set (ls d) \<longleftrightarrow> n \<noteq> [] \<and> CHR ''/'' \<notin> set n \<and>
                 (files s (py_join d n) \<noteq> None \<or> py_join d n \<in> dirs s)" for n
    using assms by (simp add: listing_ok_def)
  have "inj_on (py_join d) (set (filter glob_h (ls d)))"
    by (rule inj_onI) (use names py_join_inj in auto)
  then show "distinct (py_glob_h ls d)"
    using assms by (simp add: py_glob_h_def listing_ok_def distinct_map)
  show "\<forall>p. p \<in> set (py_glob_h ls d) \<longleftrightarrow>
            (\<exists>n pre. p = py_join d n \<and> n = pre @ ''.h'' \<and> pre \<noteq> [] \<and> hd pre \<noteq> CHR ''.''
                 \<and> CHR ''/'' \<notin> set n \<and> (files s p \<noteq> None \<or> p \<in> dirs s))"
    using names glob_h_iff by (auto simp: py_glob_h_def)
qed

text \<open>
  C36.  The run cannot see what text mode hides: on two file systems whose files read
  the same in text mode (for instance a header with LF line ends and the same header
  with CRLF line ends) the run prints the same lines and exits the same way, and
  leaves file systems that again read the same.  A CRLF edit is therefore never
  reported as a change.
\<close>

theorem cpcfg_text_mode_blind:
  assumes "text_eq s t"
  shows "snd (cpcfg sha ls argv s) = snd (cpcfg sha ls argv t)
         \<and> text_eq (fst (cpcfg sha ls argv s)) (fst (cpcfg sha ls argv t))"
proof -
  obtain s4 r where a: "cp_stage ls (argv ! 1) (argv ! 2) s = (s4, r)" by fastforce
  obtain t4 r' where b: "cp_stage ls (argv ! 1) (argv ! 2) t = (t4, r')" by fastforce
  have st: "text_eq s4 t4" "r' = r"
    using text_eq_stage [OF assms, of ls "argv ! 1" "argv ! 2"] a b by auto
  show ?thesis
  proof (cases r)
    case (Inl e)
    then show ?thesis
      using assms st a b by (simp add: cpcfg_def)
  next
    case (Inr m)
    then show ?thesis
      using assms st a b text_eq_cp_finish [OF st(1), of sha "argv ! 1" "argv ! 2" m]
      by (simp add: cpcfg_def)
  qed
qed

text \<open>
  C37.  When \<open>build/hw\<close> is a regular file, \<open>os.mkdir\<close> raises \<open>FileExistsError\<close>, which
  is swallowed, and \<open>copy2\<close> then copies every header onto that file: after the loop
  it holds the last header, no other path has changed and no directory was made.
\<close>

theorem build_hw_regular_file:
  assumes "files s p \<noteq> None" and "p \<notin> dirs s"
    and "copyfiles fl p s m = (s', Inr m')" and "fl \<noteq> []"
  shows "mkdir_exist_ok s p = Inr s \<and> files s' p = files s (last fl)
         \<and> (\<forall>q. q \<noteq> p \<longrightarrow> files s' q = files s q) \<and> dirs s' = dirs s"
proof -
  have "mkdir_exist_ok s p = Inr s"
    using assms(1) by (simp add: mkdir_exist_ok_def py_mkdir_def)
  moreover have "s' = s\<lparr>files := (files s)(p := files s (last fl))\<rparr>"
    using copyfiles_onto_file [OF assms(2-4)] by blast
  ultimately show ?thesis by simp
qed

text \<open>
  C38.  A \<open>UnicodeDecodeError\<close> of the staging ends the run uncaught, before \<open>outname\<close> is
  opened or anything printed, and it is raised only after the ill-formed header has
  been copied: the build tree holds the copy of a header that is not valid UTF-8.
\<close>

theorem cpcfg_bad_utf8:
  assumes "2 < length argv"
    and "cp_stage ls (argv ! 1) (argv ! 2) s = (s4, Inl UnicodeDecodeError)"
  shows "cpcfg sha ls argv s = (s4, [], Uncaught UnicodeDecodeError)
         \<and> (\<exists>f dst. (f \<in> set (py_glob_h ls (py_join (argv ! 1) ''hw''))
                      \<and> dst = py_join (py_dirname (argv ! 2)) ''hw''
                    \<or> f \<in> set (py_glob_h ls (py_join (argv ! 1) ''cfg''))
                      \<and> dst = py_join (py_dirname (argv ! 2)) ''cfg'')
                   \<and> (\<exists>d. files s4 (copy2_target s4 f dst) = Some d \<and> utf8_decode d = None))"
proof -
  let ?hw = "py_join (py_dirname (argv ! 2)) ''hw''" and ?cfg = "py_join (py_dirname (argv ! 2)) ''cfg''"
  let ?hf = "py_glob_h ls (py_join (argv ! 1) ''hw'')" and ?cf = "py_glob_h ls (py_join (argv ! 1) ''cfg'')"
  have run: "cpcfg sha ls argv s = (s4, [], Uncaught UnicodeDecodeError)"
    using assms by (simp add: cpcfg_def)
  obtain s1 where m1: "mkdir_exist_ok s ?hw = Inr s1"
  proof (cases "mkdir_exist_ok s ?hw")
    case (Inl e)
    then have "(s, Inl e) = (s4, Inl UnicodeDecodeError)"
      using assms(2) unfolding cp_stage_def Let_def by simp
    then show ?thesis using mkdir_exist_ok_Inl [OF Inl] by simp
  qed
  obtain s2 where m2: "mkdir_exist_ok s1 ?cfg = Inr s2"
  proof (cases "mkdir_exist_ok s1 ?cfg")
    case (Inl e)
    then have "(s1, Inl e) = (s4, Inl UnicodeDecodeError)"
      using assms(2) m1 unfolding cp_stage_def Let_def by simp
    then show ?thesis using mkdir_exist_ok_Inl [OF Inl] by simp
  qed
  obtain s3 r where c1: "copyfiles ?hf ?hw s2 [] = (s3, r)" by fastforce
  have st: "cp_stage ls (argv ! 1) (argv ! 2) s =
              (case r of Inl e \<Rightarrow> (s3, Inl e) | Inr m \<Rightarrow> copyfiles ?cf ?cfg s3 m)"
    using m1 m2 c1 unfolding cp_stage_def Let_def by (cases r) simp_all
  obtain f dst d where f: "f \<in> set ?hf \<and> dst = ?hw \<or> f \<in> set ?cf \<and> dst = ?cfg"
    and d: "files s4 (copy2_target s4 f dst) = Some d" "utf8_decode d = None"
  proof (cases r)
    case (Inl e)
    then have "copyfiles ?hf ?hw s2 [] = (s4, Inl UnicodeDecodeError)"
      using st assms(2) c1 by simp
    from copyfiles_decode_error [OF this] show ?thesis using that by blast
  next
    case (Inr m)
    then have "copyfiles ?cf ?cfg s3 m = (s4, Inl UnicodeDecodeError)"
      using st assms(2) by simp
    from copyfiles_decode_error [OF this] show ?thesis using that by blast
  qed
  show ?thesis
    using run f d by blast
qed

text \<open>
  C7.  Staging writes only where the script says: it adds at most the directories
  \<open>build/hw\<close> and \<open>build/cfg\<close>, changes no permission, and every path whose content
  changes is the \<open>copy2\<close> target of a globbed header in one of them.
\<close>

theorem cp_stage_frame:
  assumes "cp_stage ls a o' s = (s4, r)"
  shows "dirs s \<subseteq> dirs s4
         \<and> dirs s4 \<subseteq> insert (py_join (py_dirname o') ''hw'') (insert (py_join (py_dirname o') ''cfg'') (dirs s))
         \<and> unreadable s4 = unreadable s \<and> unwritable s4 = unwritable s
         \<and> (\<forall>q. files s4 q \<noteq> files s q \<longrightarrow>
               (\<exists>f\<in>set (py_glob_h ls (py_join a ''hw'')). q = copy2_target s4 f (py_join (py_dirname o') ''hw''))
             \<or> (\<exists>f\<in>set (py_glob_h ls (py_join a ''cfg'')). q = copy2_target s4 f (py_join (py_dirname o') ''cfg'')))"
proof -
  let ?hw = "py_join (py_dirname o') ''hw''" and ?cfg = "py_join (py_dirname o') ''cfg''"
  let ?hf = "py_glob_h ls (py_join a ''hw'')" and ?cf = "py_glob_h ls (py_join a ''cfg'')"
  show ?thesis
  proof (cases "mkdir_exist_ok s ?hw")
    case (Inl e)
    then have "s4 = s" using assms by (simp add: cp_stage_def Let_def)
    then show ?thesis by auto
  next
    case Inr1: (Inr s1)
    have d1: "s1 = s \<or> s1 = s\<lparr>dirs := insert ?hw (dirs s)\<rparr>"
      using mkdir_exist_ok_Inr [OF Inr1] .
    show ?thesis
    proof (cases "mkdir_exist_ok s1 ?cfg")
      case (Inl e)
      then have "s4 = s1" using assms Inr1 by (simp add: cp_stage_def Let_def)
      then show ?thesis using d1 by auto
    next
      case Inr2: (Inr s2)
      have d2: "s2 = s1 \<or> s2 = s1\<lparr>dirs := insert ?cfg (dirs s1)\<rparr>"
        using mkdir_exist_ok_Inr [OF Inr2] .
      have s2: "files s2 = files s" "unreadable s2 = unreadable s" "unwritable s2 = unwritable s"
        "dirs s \<subseteq> dirs s2" "dirs s2 \<subseteq> insert ?hw (insert ?cfg (dirs s))"
        using d1 d2 by auto
      obtain s3 r3 where c1: "copyfiles ?hf ?hw s2 [] = (s3, r3)" by fastforce
      have f1: "s3 = s2\<lparr>files := files s3\<rparr>"
        "\<forall>q. files s3 q \<noteq> files s2 q \<longrightarrow> (\<exists>f\<in>set ?hf. q = copy2_target s2 f ?hw)"
        using copyfiles_frame [OF c1] by blast+
      have f2: "s4 = s3\<lparr>files := files s4\<rparr>
          \<and> (\<forall>q. files s4 q \<noteq> files s3 q \<longrightarrow> (\<exists>f\<in>set ?cf. q = copy2_target s3 f ?cfg))"
      proof (cases r3)
        case (Inl e)
        then have "s4 = s3" using assms Inr1 Inr2 c1 by (simp add: cp_stage_def Let_def)
        then show ?thesis by simp
      next
        case (Inr m)
        then have "copyfiles ?cf ?cfg s3 m = (s4, r)"
          using assms Inr1 Inr2 c1 by (simp add: cp_stage_def Let_def)
        then show ?thesis by (rule copyfiles_frame)
      qed
      have dd: "dirs s3 = dirs s2" "dirs s4 = dirs s3"
        using arg_cong [OF f1(1), of dirs] arg_cong [OF conjunct1 [OF f2], of dirs] by simp_all
      have rw: "unreadable s4 = unreadable s2 \<and> unwritable s4 = unwritable s2"
        using arg_cong [OF f1(1), of unreadable] arg_cong [OF conjunct1 [OF f2], of unreadable]
          arg_cong [OF f1(1), of unwritable] arg_cong [OF conjunct1 [OF f2], of unwritable] by simp
      have tg: "copy2_target s2 f d = copy2_target s4 f d" "copy2_target s3 f d = copy2_target s4 f d" for f d
        unfolding copy2_target_def using dd by simp_all
      have ch: "files s4 q \<noteq> files s q \<Longrightarrow>
          (\<exists>f\<in>set ?hf. q = copy2_target s4 f ?hw) \<or> (\<exists>f\<in>set ?cf. q = copy2_target s4 f ?cfg)" for q
      proof -
        assume q: "files s4 q \<noteq> files s q"
        show ?thesis
        proof (cases "files s4 q = files s3 q")
          case True
          then have "files s3 q \<noteq> files s2 q" using q s2(1) by simp
          then show ?thesis using f1(2) tg by auto
        next
          case False
          then show ?thesis using conjunct2 [OF f2] tg by auto
        qed
      qed
      show ?thesis
      proof (intro conjI allI impI)
        show "dirs s \<subseteq> dirs s4" using s2(4) dd by simp
        show "dirs s4 \<subseteq> insert ?hw (insert ?cfg (dirs s))" using s2(5) dd by simp
        show "unreadable s4 = unreadable s" using rw s2(2) by simp
        show "unwritable s4 = unwritable s" using rw s2(3) by simp
        fix q
        assume "files s4 q \<noteq> files s q"
        then show "(\<exists>f\<in>set ?hf. q = copy2_target s4 f ?hw) \<or> (\<exists>f\<in>set ?cf. q = copy2_target s4 f ?cfg)"
          by (rule ch)
      qed
    qed
  qed
qed

text \<open>
  C28.  A first run, when \<open>outname\<close> does not exist: \<open>open(outname, "r+")\<close> raises
  \<open>FileNotFoundError\<close>, \<open>w+\<close> creates the file empty, the empty text differs from the
  sentinel, and the run writes the sentinel, prints \<open>Copying files\<close> and exits with 0.
\<close>

theorem cpcfg_first_run:
  assumes "2 < length argv" and "cp_stage ls (argv ! 1) (argv ! 2) s = (s4, Inr m)"
    and "files s4 (argv ! 2) = None" and "can_create s4 (argv ! 2)"
  shows "cpcfg sha ls argv s =
           (s4\<lparr>files := (files s4)(argv ! 2 \<mapsto> utf8_encode (py_text (cp_sentinel (sha m))))\<rparr>,
            [''Checking hw+cfg from '' @ argv ! 1 @ ''...'', ''Copying files, saving new SHA256: '' @ sha m],
            Exited 0)"
proof -
  have "cp_open s4 (argv ! 2) = Inr (s4\<lparr>files := (files s4)(argv ! 2 \<mapsto> [])\<rparr>, [])"
    using assms(3,4) by (simp add: cp_open_def open_rplus_def open_write_def can_create_def)
  moreover have "py_decode_text [] = Inr []"
    by (simp add: py_decode_text_def)
  moreover have "py_text (cp_sentinel (sha m)) \<noteq> []"
    by (simp add: py_text_def cp_sentinel_def)
  ultimately show ?thesis
    using assms(1,2) by (simp add: cpcfg_def cp_finish_def Let_def)
qed

text \<open>
  C29.  With fewer than two arguments after the script name, \<open>sys.argv[1]\<close> or
  \<open>sys.argv[2]\<close> raises \<open>IndexError\<close> before any file is touched or line printed.
\<close>

theorem cpcfg_short_argv:
  assumes "length argv < 3"
  shows "cpcfg sha ls argv s = (s, [], Uncaught IndexError)"
  using assms by (simp add: cpcfg_def)

subsection \<open>Witnesses\<close>

theorem cpcfg_sentinel_witness:
  "\<exists>s4 m d. cp_stage demo_ls ''app'' ''build/cfg_hash.h'' demo_cp_fs = (s4, Inr m)
     \<and> files (fst (cpcfg demo_sha demo_ls cp_argv demo_cp_fs)) ''build/cfg_hash.h'' = Some d
     \<and> py_decode_text d = Inr (py_text (cp_sentinel (demo_sha m)))"
proof -
  have run: "snd (snd (cpcfg demo_sha demo_ls cp_argv demo_cp_fs)) = Exited 0"
    by (simp add: cpcfg_def demo_cp_fs_def cp_eval)
  have r: "cpcfg demo_sha demo_ls cp_argv demo_cp_fs =
          (fst (cpcfg demo_sha demo_ls cp_argv demo_cp_fs),
           fst (snd (cpcfg demo_sha demo_ls cp_argv demo_cp_fs)), Exited 0)"
    using run by (metis prod.collapse)
  have l: "2 < length cp_argv" by (simp add: cp_argv_def)
  from cpcfg_sentinel [OF demo_sha_hex l r] show ?thesis
    by (simp add: cp_argv_def)
qed

theorem cpcfg_stage_kept_witness:
  "\<exists>s4 m. cp_stage demo_ls ''app'' ''build/cfg_hash.h'' demo_cp_fs = (s4, Inr m)
     \<and> fst (cpcfg demo_sha demo_ls cp_argv demo_cp_fs) =
         s4\<lparr>files := (files s4)(''build/cfg_hash.h'' :=
                files (fst (cpcfg demo_sha demo_ls cp_argv demo_cp_fs)) ''build/cfg_hash.h'')\<rparr>"
proof -
  obtain s4 m where st: "cp_stage demo_ls ''app'' ''build/cfg_hash.h'' demo_cp_fs = (s4, Inr m)"
    by (simp add: demo_cp_fs_def cp_eval)
  have "2 < length cp_argv" by (simp add: cp_argv_def)
  then show ?thesis
    using cpcfg_stage_kept [of cp_argv demo_ls demo_cp_fs s4 m demo_sha] st by (simp add: cp_argv_def)
qed

theorem cp_finish_rerun_witness:
  "cp_finish demo_sha ''app'' ''out.h'' (fst (cp_finish demo_sha ''app'' ''out.h'' demo_cp_fs [])) [] =
     (fst (cp_finish demo_sha ''app'' ''out.h'' demo_cp_fs []),
      [''Checking hw+cfg from app...'', ''No need to copy hw+cfg from app''], Exited 0)"
proof -
  have run: "cp_finish demo_sha ''app'' ''out.h'' demo_cp_fs [] =
               (fst (cp_finish demo_sha ''app'' ''out.h'' demo_cp_fs []),
                fst (snd (cp_finish demo_sha ''app'' ''out.h'' demo_cp_fs [])), Exited 0)"
    by (simp add: demo_cp_fs_def cp_eval)
  have "''out.h'' \<notin> unreadable demo_cp_fs" by (simp add: demo_cp_fs_def)
  then show ?thesis
    using cp_finish_rerun [OF demo_sha_hex _ run] by (simp add: char_of_def bit_0)
qed

theorem cpcfg_no_build_dir_witness:
  "cpcfg demo_sha demo_ls [''cpcfg.py'', ''app'', ''out/cfg_hash.h''] demo_cp_fs =
     (demo_cp_fs, [], Uncaught (FileNotFoundError ''out/hw''))"
proof -
  let ?a = "[''cpcfg.py'', ''app'', ''out/cfg_hash.h'']"
  have h: "2 < length ?a" "py_dirname (?a ! 2) \<noteq> []" "last (py_dirname (?a ! 2)) \<noteq> CHR ''/''"
    "py_dirname (?a ! 2) \<notin> dirs demo_cp_fs" "files demo_cp_fs (py_dirname (?a ! 2)) = None"
    "py_join (py_dirname (?a ! 2)) ''hw'' \<notin> dirs demo_cp_fs"
    "files demo_cp_fs (py_join (py_dirname (?a ! 2)) ''hw'') = None"
    by (simp_all add: demo_cp_fs_def cp_eval)
  show ?thesis
    using cpcfg_no_build_dir [OF h, of demo_sha demo_ls] by (simp add: py_eval)
qed

theorem py_glob_h_listing_witness:
  "distinct (py_glob_h demo_ls ''app/hw'') \<and> py_glob_h demo_ls ''app/hw'' = [''app/hw/hw_a.h'']"
proof -
  have "listing_ok demo_cp_fs demo_ls ''app/hw''"
    unfolding listing_ok_def
  proof (intro conjI allI)
    show "distinct (demo_ls ''app/hw'')" by (simp add: demo_ls_def)
    fix n
    show "n \<in> set (demo_ls ''app/hw'') \<longleftrightarrow> n \<noteq> [] \<and> CHR ''/'' \<notin> set n \<and>
            (files demo_cp_fs (py_join ''app/hw'' n) \<noteq> None \<or> py_join ''app/hw'' n \<in> dirs demo_cp_fs)"
    proof (cases "n \<noteq> [] \<and> CHR ''/'' \<notin> set n")
      case True
      then have "py_join ''app/hw'' n = ''app/hw/'' @ n"
        by (simp add: py_join_plain)
      then show ?thesis using True by (auto simp: demo_ls_def demo_cp_fs_def)
    next
      case False
      then show ?thesis by (auto simp: demo_ls_def)
    qed
  qed
  from py_glob_h_listing [OF this] show ?thesis
    by (simp add: cp_eval)
qed

theorem copyfiles_complete_witness:
  "\<exists>s'. copyfiles [''app/hw/hw_a.h''] ''build/hw'' demo_crlf_fs [] =
          (s', Inr (bytes_nl (file_content demo_crlf_fs ''app/hw/hw_a.h'')))"
proof -
  have h: "''build/hw'' \<in> dirs demo_crlf_fs"
    "\<forall>f\<in>set [''app/hw/hw_a.h'']. \<forall>g\<in>set [''app/hw/hw_a.h'']. py_join ''build/hw'' (py_basename g) \<noteq> f"
    "\<forall>f\<in>set [''app/hw/hw_a.h'']. can_create demo_crlf_fs (py_join ''build/hw'' (py_basename f))"
    "\<forall>f\<in>set [''app/hw/hw_a.h'']. \<exists>d. open_read demo_crlf_fs f = Inr d \<and> utf8_decode d \<noteq> None"
    by (simp_all add: demo_crlf_fs_def can_create_def parent_ok_def open_read_def cp_eval utf8_cont_def)
  show ?thesis
    using copyfiles_complete [OF h, of "[]"] by simp
qed

theorem cpcfg_text_mode_blind_witness:
  "snd (cpcfg demo_sha demo_ls cp_argv demo_crlf_fs) = snd (cpcfg demo_sha demo_ls cp_argv demo_lf_fs)"
proof -
  have "files demo_crlf_fs ''app/hw/hw_a.h'' = Some hw_a_crlf"
    by (simp add: demo_crlf_fs_def)
  then have e: "demo_crlf_fs = demo_crlf_fs\<lparr>files := (files demo_crlf_fs)(''app/hw/hw_a.h'' \<mapsto> hw_a_crlf)\<rparr>"
    by (simp add: fun_upd_idem)
  have "py_decode_text hw_a_crlf = py_decode_text hw_a_lf"
    by (simp add: cp_eval)
  then have "text_eq demo_crlf_fs demo_lf_fs"
    unfolding demo_lf_fs_def by (subst e) (rule text_eq_upd [OF text_eq_refl])
  from cpcfg_text_mode_blind [OF this] show ?thesis by blast
qed

theorem build_hw_regular_file_witness:
  "\<exists>s' m'. copyfiles [''app/hw/hw_a.h''] ''build/hw'' demo_hwfile_fs [] = (s', Inr m')
     \<and> files s' ''build/hw'' = Some hw_a_lf \<and> mkdir_exist_ok demo_hwfile_fs ''build/hw'' = Inr demo_hwfile_fs"
proof -
  obtain s' m' where c: "copyfiles [''app/hw/hw_a.h''] ''build/hw'' demo_hwfile_fs [] = (s', Inr m')"
    by (simp add: demo_hwfile_fs_def demo_cp_fs_def cp_eval)
  have h: "files demo_hwfile_fs ''build/hw'' \<noteq> None" "''build/hw'' \<notin> dirs demo_hwfile_fs"
    "[''app/hw/hw_a.h''] \<noteq> []"
    by (simp_all add: demo_hwfile_fs_def demo_cp_fs_def)
  have l: "files demo_hwfile_fs (last [''app/hw/hw_a.h'']) = Some hw_a_lf"
    by (simp add: demo_hwfile_fs_def demo_cp_fs_def)
  show ?thesis
    using build_hw_regular_file [OF h(1,2) c h(3)] c l by auto
qed

theorem cpcfg_bad_utf8_witness:
  "cpcfg demo_sha demo_ls cp_argv demo_badutf_fs =
     (fst (cp_stage demo_ls ''app'' ''build/cfg_hash.h'' demo_badutf_fs), [], Uncaught UnicodeDecodeError)"
proof -
  have l: "2 < length cp_argv" by (simp add: cp_argv_def)
  have "snd (cp_stage demo_ls ''app'' ''build/cfg_hash.h'' demo_badutf_fs) = Inl UnicodeDecodeError"
    by (simp add: demo_badutf_fs_def demo_cp_fs_def cp_eval)
  then have "cp_stage demo_ls (cp_argv ! 1) (cp_argv ! 2) demo_badutf_fs =
      (fst (cp_stage demo_ls ''app'' ''build/cfg_hash.h'' demo_badutf_fs), Inl UnicodeDecodeError)"
    by (simp add: cp_argv_def prod_eq_iff)
  from cpcfg_bad_utf8 [OF l this] show ?thesis by blast
qed

theorem cp_stage_frame_witness:
  "dirs (fst (cp_stage demo_ls ''app'' ''build/cfg_hash.h'' demo_cp_fs))
     \<subseteq> insert ''build/hw'' (insert ''build/cfg'' (dirs demo_cp_fs))"
proof -
  have "cp_stage demo_ls ''app'' ''build/cfg_hash.h'' demo_cp_fs =
     (fst (cp_stage demo_ls ''app'' ''build/cfg_hash.h'' demo_cp_fs), snd (cp_stage demo_ls ''app'' ''build/cfg_hash.h'' demo_cp_fs))"
    by simp
  from cp_stage_frame [OF this] show ?thesis
    by (simp add: py_join_def py_dirname_def py_basename_def Let_def)
qed

theorem cpcfg_first_run_witness:
  "\<exists>s4 m. cp_stage demo_ls ''app'' ''build/cfg_hash.h'' demo_cp_fs = (s4, Inr m)
     \<and> cpcfg demo_sha demo_ls cp_argv demo_cp_fs =
         (s4\<lparr>files := (files s4)(''build/cfg_hash.h'' \<mapsto> utf8_encode (py_text (cp_sentinel (demo_sha m))))\<rparr>,
          [''Checking hw+cfg from app...'', ''Copying files, saving new SHA256: '' @ demo_sha m], Exited 0)"
proof -
  have "\<exists>s4 m. cp_stage demo_ls ''app'' ''build/cfg_hash.h'' demo_cp_fs = (s4, Inr m)
          \<and> files s4 ''build/cfg_hash.h'' = None \<and> can_create s4 ''build/cfg_hash.h''"
    by (simp add: demo_cp_fs_def cp_eval)
  then obtain s4 m where st: "cp_stage demo_ls ''app'' ''build/cfg_hash.h'' demo_cp_fs = (s4, Inr m)"
    and n: "files s4 ''build/cfg_hash.h'' = None" and c: "can_create s4 ''build/cfg_hash.h''"
    by blast
  have l: "2 < length cp_argv" by (simp add: cp_argv_def)
  have h: "cp_stage demo_ls (cp_argv ! 1) (cp_argv ! 2) demo_cp_fs = (s4, Inr m)"
    "files s4 (cp_argv ! 2) = None" "can_create s4 (cp_argv ! 2)"
    using st n c by (simp_all add: cp_argv_def)
  show ?thesis
    using cpcfg_first_run [OF l h] st by (simp add: cp_argv_def)
qed

theorem cpcfg_short_argv_witness:
  "cpcfg demo_sha demo_ls [''cpcfg.py'', ''app''] demo_cp_fs = (demo_cp_fs, [], Uncaught IndexError)"
  using cpcfg_short_argv [of "[''cpcfg.py'', ''app'']"] by simp

end
