(* ===== verification/Spec2Isabelle.thy ===== *)
theory Spec2Isabelle
  imports FirmwareHeader Findrev Cpcfg
begin

text \<open>
  \<^bold>\<open>A verification library for the build scripts of bertos-meson.\<close>

  \<^bold>\<open>The program.\<close>  The repository holds three Python scripts that the Meson build
  runs as external tools:
  \<^item> \<open>src/create-firmware-header.py\<close>, the firmware image packager (the core of the
    spec): it reads a raw firmware file, folds a CRC-32 over a tag given on the
    command line and over the payload, and writes an image made of an 8-byte
    little-endian header (payload size, checksum) followed by the payload;
  \<^item> \<open>src/bertos/cpcfg.py\<close>, the configuration staging utility: it copies the
    \<open>hw/*.h\<close> and \<open>cfg/*.h\<close> headers of an application into the build tree and keeps
    a SHA-256 sentinel line in an output header;
  \<^item> \<open>src/findrev.py\<close>, the version extraction utility: it scans a C header for the
    \<open>#if (ARCH & ARCH_<board>)\<close> block of a board and prints its
    \<open>FIRMWARE_VERSION\<close>.
  The scripts do not call one another; they share only the file system, which the
  development models once (\<open>PyIO\<close>) and every script model threads through.

  \<^bold>\<open>The library.\<close>
  \<^item> \<open>Prelude\<close>: bytes, 32-bit words, paths, the Python exceptions (\<open>py_exc\<close>) and the
    exit status of a run (\<open>status\<close>, \<open>exit_code\<close>: an uncaught exception exits with 1),
    Python 2 byte strings (\<open>bytes_of\<close>), word and integer lemmas, and the rule
    collections \<open>crc_eval\<close> and \<open>py_eval\<close> that evaluate the models on concrete
    inputs.
  \<^item> \<open>Crc32\<close>: \<open>binascii.crc32\<close> of Python 2 over zlib's CRC-32, modelled from the spec
    (it is library code): the bit-serial register (\<open>crc_shift\<close>, \<open>crc_byte\<close>,
    \<open>crc_update\<close>, \<open>crc32\<close>), zlib's table-driven routine (\<open>crc32_table\<close>), proved
    equal to it (\<open>crc_byte_table_eq\<close>), and the signed Python 2 result
    (\<open>binascii_crc32\<close>).  The checksum of a concatenation is the checksum of its
    parts folded in order (\<open>crc32_append\<close>), and the register step is injective
    (\<open>crc_shift_inj\<close>, \<open>crc32_inj_start\<close>).
  \<^item> \<open>Struct\<close>: \<open>struct.pack('<I')\<close> and \<open>struct.unpack('<I')\<close> on unbounded Python
    integers (\<open>le_bytes\<close>, \<open>le_value\<close>), with the range check that raises
    \<open>struct.error\<close>.
  \<^item> \<open>PyIO\<close>: \<open>readlines\<close> on a binary file (\<open>py_readlines\<close>), \<open>os.path\<close>, the file
    system \<open>fs\<close> (files, directories, unreadable and unwritable paths) with the
    invariant \<open>fs_wf\<close>, and \<open>open\<close>, \<open>write\<close> and \<open>seek\<close> of a file object
    (\<open>open_read\<close>, \<open>open_write\<close>, \<open>f_write\<close>, \<open>f_seek\<close>).
  \<^item> \<open>PyFormat\<close>: \<open>str(n)\<close> and \<open>"%08x" % n\<close> as the scripts print them.
  \<^item> \<open>FirmwareHeader\<close>: the packager, line by line (\<open>fw_start\<close> lines 13--20,
    \<open>fw_loop\<close> lines 21--24, \<open>fw_finish\<close> lines 26--31, \<open>create_firmware_header\<close>
    the whole script from \<open>sys.argv\<close> and the file system to the new file system,
    the printed lines and the exit status), the image format of the spec
    (\<open>fw_image\<close>, \<open>fw_parse\<close>) and the contract of a run (\<open>fw_spec_run\<close>).
  \<^item> \<open>PyStr\<close>: the \<open>str\<close> methods \<open>findrev.py\<close> calls (\<open>startswith\<close>, \<open>strip\<close>,
    \<open>rstrip\<close>, \<open>lower\<close>, \<open>split()\<close>, \<open>split(sep, 1)\<close>, indexing with
    \<open>IndexError\<close>) and \<open>chars_of\<close>, a line of a text file as a string.
  \<^item> \<open>Findrev\<close>: the version extraction utility, its variables as the record
    \<open>fr_state\<close> (\<open>board_found\<close>, \<open>major\<close>, \<open>minor\<close>, \<open>rev'\<close>, \<open>rc\<close>, \<open>version\<close>
    and what was printed, \<open>stdout\<close>); \<open>fr_select\<close> is lines 12--15, \<open>fr_assign\<close>
    one of the \<open>VERS_*\<close> assignments of lines 18--25, \<open>fr_version\<close> lines 26--30,
    \<open>fr_step\<close> one iteration, \<open>fr_loop\<close> the loop of line 11 (it stops at the
    first exception), \<open>findrev\<close> the whole script.
  \<^item> \<open>Utf8\<close>: \<open>open(f, "r").read()\<close> and \<open>str.encode()\<close> as \<open>cpcfg.py\<close> line 15
    uses them, modelled from the Unicode standard (library code): strict UTF-8
    decoding into code points (\<open>utf8_decode\<close>, Table 3-7 of the standard, with the
    overlong, surrogate and out-of-range sequences rejected), encoding
    (\<open>utf8_encode\<close>), universal-newline translation (\<open>universal_nl\<close>), and the
    read-then-encode of a file (\<open>py_read_text\<close>, \<open>UnicodeDecodeError\<close> on an
    ill-formed file).
  \<^item> \<open>Cpcfg\<close>: the configuration staging utility.  \<open>glob_h\<close>/\<open>py_glob_h\<close> is
    \<open>glob.glob(d/*.h)\<close>, \<open>py_mkdir\<close>/\<open>mkdir_exist_ok\<close> lines 33--41, \<open>py_copy2\<close>
    \<open>shutil.copy2\<close>, \<open>copyfiles\<close> lines 10--16 (the hash object is the list of
    bytes fed to it so far), \<open>cp_stage\<close> lines 18--44, \<open>cp_open\<close> lines 47--50,
    \<open>cp_finish\<close> lines 45--62, \<open>cpcfg\<close> the whole script.  Two inputs are
    parameters: the order a directory is listed in (\<open>listing\<close>, constrained by
    \<open>listing_ok\<close> where a theorem needs it) and the SHA-256 hex digest (\<open>sha\<close>,
    constrained by \<open>hexdigest_fn\<close> to return hexadecimal digits).

  \<^bold>\<open>What is proved.\<close>  The packager refines its contract on every input
  (\<open>create_firmware_header_refines\<close>); from the case rule \<open>run_cases\<close> follow the
  properties of the spec's section 8: the header of a produced image parses back to
  the payload size and the CRC-32 of tag and payload, and stripping it gives the
  payload back; a failing run leaves the file system as documented.  For the
  version utility: every printed line is the unquoted value of a
  \<open>FIRMWARE_VERSION\<close> line of the header, at most one line is printed per
  architecture line naming the board, and the \<open>official\<close> flag, an upper-case board
  name and an \<open>#elif\<close> for another board behave as the code, not the spec, says
  (\<open>findrev_elif_leak\<close>: for every header whose requested section lacks a
  version before another board's \<open>#elif\<close>, the first printed line is that other
  board's version); \<open>fr_section_prints\<close> states, for every state and every header,
  which line of a section prints.  \<open>readlines\<close> is characterised exactly
  (\<open>py_readlines_spec\<close>).  For the text read: decoding and encoding are inverse on
  Unicode scalar values (\<open>utf8_roundtrip\<close>) and what is hashed is the file's bytes
  with newlines translated (\<open>py_read_text_spec\<close>).  For the staging utility: a run
  that exits with 0 leaves the sentinel of the hashed bytes in \<open>outname\<close> for every
  digest function (\<open>cpcfg_sentinel\<close>), the rewrite is idempotent
  (\<open>cp_finish_rerun\<close>), the copy loop runs to its end on well-formed inputs
  (\<open>copyfiles_complete\<close>), staging writes only the copy targets in \<open>build/hw\<close> and
  \<open>build/cfg\<close> (\<open>cp_stage_frame\<close>), the finish step touches only \<open>outname\<close>
  (\<open>cpcfg_stage_kept\<close>), and a first run creates it (\<open>cpcfg_first_run\<close>).  The
  behaviours the spec does not cover are proved for every input: the run cannot
  distinguish file systems whose files read the same in text mode, so a CRLF edit
  is reported as unchanged (\<open>cpcfg_text_mode_blind\<close>, a noninterference statement
  over the relation \<open>text_eq\<close>, proved operation by operation); a regular file at
  \<open>build/hw\<close> is overwritten by every header (\<open>build_hw_regular_file\<close>); an
  ill-formed header aborts the run after its copy (\<open>cpcfg_bad_utf8\<close>).  The
  theorems are listed, with their claim identifiers, in the text blocks before
  them.

  \<^bold>\<open>Bounds and modelling choices.\<close>  No loop of the scripts needs fuel: every loop
  runs over a finite list (the lines of a file, the files of a directory), and the
  models are structural recursions, apart from the newline translations and
  \<open>split()\<close>, \<open>function\<close>s with a termination proof by the length of the input.  Sizes are Python integers (\<^typ>\<open>int\<close>); the
  32-bit limit is the one \<open>struct.pack\<close> checks.  Writes go to the file at once:
  no script reads a file it is writing, so buffering is not observable; a write
  failure in the middle of a run (disk full) is not modelled.

  \<^bold>\<open>Not modelled.\<close>  The interpreter's start-up and the traceback text of an uncaught
  exception (only its exit status 1 is); SHA-256 itself (a parameter of the
  \<open>cpcfg.py\<close> model, no theorem depends on which digest it is); the metadata
  \<open>copy2\<close> copies besides the content; \<open>_f.close\<close> at line 16, an attribute
  access without a call that has no effect on the model's state.
\<close>

subsection \<open>The image a run produces\<close>

text \<open>
  C2.  Parsing the output of a successful run gives back the payload size, the
  CRC-32 of the tag followed by the payload, and the payload itself (the spec's
  first testable property and its round trip), and the run exits with status 0.
\<close>

theorem package_header_fields:
  assumes "4 \<le> length argv" and "open_read s (argv ! 1) = Inr payload"
    and "can_create s (argv ! 2)" and "length payload \<le> 0xffffffff"
  shows "fw_parse (file_content (fst (create_firmware_header argv s)) (argv ! 2)) =
           Some (int (length payload), uint (crc32 (bytes_of (argv ! 3) @ payload) 0), payload)
         \<and> exit_code (snd (snd (create_firmware_header argv s))) = 0"
  using run_success [OF assms] fw_parse_fw_image [OF assms(4)]
  by (simp add: file_content_def)

theorem package_header_fields_witness:
  "4 \<le> length demo_argv \<and> open_read demo_fs (demo_argv ! 1) = Inr [1, 2, 3, 4]
   \<and> can_create demo_fs (demo_argv ! 2) \<and> length [1, 2, 3, 4 :: byte] \<le> 0xffffffff
   \<and> fw_parse (file_content (fst (create_firmware_header demo_argv demo_fs)) (demo_argv ! 2)) =
       Some (4, 0x6780fa98, [1, 2, 3, 4])"
proof -
  have h: "4 \<le> length demo_argv" "open_read demo_fs (demo_argv ! 1) = Inr [1, 2, 3, 4]"
    "can_create demo_fs (demo_argv ! 2)" "length [1, 2, 3, 4 :: byte] \<le> 0xffffffff"
    by (simp_all add: py_eval)
  have crc: "uint (crc32 (bytes_of (demo_argv ! 3) @ [1, 2, 3, 4]) 0) = 0x6780fa98"
    by (simp add: crc_eval py_eval)
  show ?thesis
    using package_header_fields [OF h] h crc by simp
qed

text \<open>
  C11.  The spec's concrete scenario: the payload \<open>01 02 03 04\<close> packed with the tag
  \<open>v1\<close> gives the header \<open>04 00 00 00\<close> (size) and \<open>98 fa 80 67\<close> (CRC-32
  \<open>0x6780fa98\<close> of \<open>v1\<close> followed by the payload), then the four payload bytes;
  the script prints \<open>size 4 crc 6780fa98\<close> and exits with status 0.
\<close>

theorem package_example:
  "create_firmware_header demo_argv demo_fs =
     (demo_fs\<lparr>files := (files demo_fs)(''fw.img'' \<mapsto> [4, 0, 0, 0, 0x98, 0xfa, 0x80, 0x67, 1, 2, 3, 4])\<rparr>,
      [''size 4 crc 6780fa98'', ''Firmware file fw.img created.''], Exited 0)"
proof -
  have h: "4 \<le> length demo_argv" "open_read demo_fs (demo_argv ! 1) = Inr [1, 2, 3, 4]"
    "can_create demo_fs (demo_argv ! 2)" "length [1, 2, 3, 4 :: byte] \<le> 0xffffffff"
    by (simp_all add: py_eval)
  have crc: "uint (crc32 (bytes_of (demo_argv ! 3) @ [1, 2, 3, 4]) 0) = 0x6780fa98"
    by (simp add: crc_eval py_eval)
  have msg: "size_msg (int (length [1, 2, 3, 4 :: byte])) 0x6780fa98 = ''size 4 crc 6780fa98''"
    by (simp add: py_eval py_digits.simps char_of_def bit_0)
  have img: "fw_image (bytes_of (demo_argv ! 3)) [1, 2, 3, 4] =
      [4, 0, 0, 0, 0x98, 0xfa, 0x80, 0x67, 1, 2, 3, 4]"
    unfolding fw_image_def crc by (simp add: py_eval)
  show ?thesis
    unfolding run_success [OF h] crc msg img by (simp add: py_eval)
qed

text \<open>
  C12.  An empty payload: the output is exactly the eight header bytes, the size
  field is 0 and the checksum field is the CRC-32 of the tag alone.
\<close>

theorem package_empty_payload:
  assumes "4 \<le> length argv" and "open_read s (argv ! 1) = Inr []" and "can_create s (argv ! 2)"
  shows "files (fst (create_firmware_header argv s)) (argv ! 2) =
           Some (le_bytes 4 0 @ le_bytes 4 (uint (crc32 (bytes_of (argv ! 3)) 0)))
         \<and> length (file_content (fst (create_firmware_header argv s)) (argv ! 2)) = 8"
  using run_success [OF assms] by (simp add: fw_image_def file_content_def)

theorem package_empty_payload_witness:
  "4 \<le> length demo_argv \<and> open_read (demo_fs\<lparr>files := [''fw.bin'' \<mapsto> []]\<rparr>) (demo_argv ! 1) = Inr []
   \<and> can_create (demo_fs\<lparr>files := [''fw.bin'' \<mapsto> []]\<rparr>) (demo_argv ! 2)
   \<and> length (file_content (fst (create_firmware_header demo_argv
        (demo_fs\<lparr>files := [''fw.bin'' \<mapsto> []]\<rparr>))) (demo_argv ! 2)) = 8"
proof -
  have h: "4 \<le> length demo_argv" "open_read (demo_fs\<lparr>files := [''fw.bin'' \<mapsto> []]\<rparr>) (demo_argv ! 1) = Inr []"
    "can_create (demo_fs\<lparr>files := [''fw.bin'' \<mapsto> []]\<rparr>) (demo_argv ! 2)"
    by (simp_all add: py_eval)
  show ?thesis using package_empty_payload [OF h] h by blast
qed

text \<open>
  C13.  Tag sensitivity: packing the same payload under two tags gives the same
  image exactly when the two tags have the same CRC-32; the register step is a
  bijection, so no payload can make two differently checksummed tags collide.
\<close>

theorem package_tag_sensitivity:
  assumes "4 \<le> length argv" and "open_read s (argv ! 1) = Inr payload"
    and "can_create s (argv ! 2)" and "length payload \<le> 0xffffffff"
  shows "files (fst (create_firmware_header argv s)) (argv ! 2) =
           files (fst (create_firmware_header (argv[3 := t]) s)) (argv ! 2)
         \<longleftrightarrow> crc32 (bytes_of (argv ! 3)) 0 = crc32 (bytes_of t) 0"
proof -
  have h': "4 \<le> length (argv[3 := t])" "open_read s (argv[3 := t] ! 1) = Inr payload"
    "can_create s (argv[3 := t] ! 2)" "length payload \<le> 0xffffffff"
    using assms by simp_all
  have "argv[3 := t] ! 2 = argv ! 2" "argv[3 := t] ! 3 = t"
    using assms(1) by simp_all
  then show ?thesis
    using run_success [OF assms] run_success [OF h']
    by (simp add: fw_image_def crc32_append crc32_inj_start le_bytes4_uint_inj)
qed

theorem package_tag_sensitivity_witness:
  "4 \<le> length demo_argv \<and> open_read demo_fs (demo_argv ! 1) = Inr [1, 2, 3, 4]
   \<and> can_create demo_fs (demo_argv ! 2) \<and> length [1, 2, 3, 4 :: byte] \<le> 0xffffffff
   \<and> files (fst (create_firmware_header demo_argv demo_fs)) (demo_argv ! 2) \<noteq>
     files (fst (create_firmware_header (demo_argv[3 := ''v2'']) demo_fs)) (demo_argv ! 2)"
proof -
  have h: "4 \<le> length demo_argv" "open_read demo_fs (demo_argv ! 1) = Inr [1, 2, 3, 4]"
    "can_create demo_fs (demo_argv ! 2)" "length [1, 2, 3, 4 :: byte] \<le> 0xffffffff"
    by (simp_all add: py_eval)
  have "crc32 (bytes_of (demo_argv ! 3)) 0 \<noteq> crc32 (bytes_of ''v2'') 0"
    by (simp add: crc_eval py_eval)
  then show ?thesis
    using package_tag_sensitivity [OF h, of "''v2''"] h by blast
qed

end
